theory Spec2Isabelle
  imports Complex_Main "HOL-Library.Word" "HOL-Library.Sublist"
begin

chapter \<open>The gfe driver: network server, aging experiment master, update tests\<close>

section \<open>The network server: signal handling (src/network/server.cpp)\<close>

text \<open>
  A \<open>Server*\<close> is the address of a server object. The process-wide state of the signal
  handling is the three file-level statics of server.cpp (\<open>g_server_instance\<close>,
  \<open>g_sigaction_term\<close>, \<open>g_sigaction_interrupt\<close>) together with what the operating
  system holds: the current disposition of SIGTERM and of SIGINT. \<open>cerr\<close> collects the
  lines \<open>signal_handler_uninstall\<close> prints when \<open>sigaction\<close> fails.
\<close>

type_synonym server_ptr = nat

datatype sig_disposition =
    Sig_default
  | Sig_handler_execute
  | Sig_other nat

record signal_state =
  g_server_instance :: "server_ptr option"
  g_sigaction_term :: sig_disposition
  g_sigaction_interrupt :: sig_disposition
  disposition_sigterm :: sig_disposition
  disposition_sigint :: sig_disposition
  cerr :: "string list"

text \<open>
  The return codes of the two \<open>sigaction\<close> calls of one install or uninstall are given by
  the environment. A call that fails (\<open>rc \<noteq> 0\<close>) changes nothing; one that succeeds stores
  the old disposition where the caller asked and installs the new one.
\<close>

record sigaction_rcs =
  rc_sigterm :: int
  rc_sigint :: int

datatype server_error =
    Errno_sigaction_sigterm int
  | Errno_sigaction_sigint
  | Error_handler_already_installed server_ptr

text \<open>
  An exception leaves the mutations made before it in place, so a throwing call returns the
  error together with the state at the throw.
\<close>

definition signal_handler_install ::
  "sigaction_rcs \<Rightarrow> signal_state \<Rightarrow> (server_error \<times> signal_state) + signal_state" where
  "signal_handler_install rcs st =
     (if rc_sigterm rcs \<noteq> 0 then Inl (Errno_sigaction_sigterm (rc_sigterm rcs), st)
      else
        let st1 = st\<lparr>g_sigaction_term := disposition_sigterm st,
                     disposition_sigterm := Sig_handler_execute\<rparr>
        in if rc_sigint rcs \<noteq> 0 then Inl (Errno_sigaction_sigint, st1)
           else Inr (st1\<lparr>g_sigaction_interrupt := disposition_sigint st1,
                          disposition_sigint := Sig_handler_execute\<rparr>))"

definition signal_handler_uninstall :: "sigaction_rcs \<Rightarrow> signal_state \<Rightarrow> signal_state" where
  "signal_handler_uninstall rcs st =
     (let st1 = (if rc_sigterm rcs \<noteq> 0
                 then st\<lparr>cerr := cerr st @ [''ERROR: signal_handler_uninstall, sigaction, sigterm'']\<rparr>
                 else st\<lparr>disposition_sigterm := g_sigaction_term st\<rparr>)
      in if rc_sigint rcs \<noteq> 0
         then st1\<lparr>cerr := cerr st1 @ [''ERROR: signal_handler_uninstall, sigaction, sigint'']\<rparr>
         else st1\<lparr>disposition_sigint := g_sigaction_interrupt st1\<rparr>)"

text \<open>\<open>Server::handle_signals\<close>, called on the server at address \<open>this\<close>.\<close>

definition handle_signals ::
  "server_ptr \<Rightarrow> sigaction_rcs \<Rightarrow> signal_state \<Rightarrow> (server_error \<times> signal_state) + signal_state" where
  "handle_signals this rcs st =
     (if g_server_instance st = Some this then Inr st
      else (case g_server_instance st of
              Some other \<Rightarrow> Inl (Error_handler_already_installed other, st)
            | None \<Rightarrow> signal_handler_install rcs (st\<lparr>g_server_instance := Some this\<rparr>)))"

text \<open>
  \<open>Server::~Server\<close>: the object's own part of the state is its listening socket
  \<open>m_server_fd\<close>, closed and set to \<open>-1\<close>; the process-wide part is touched only when the
  object is the registered one.
\<close>

record server_object =
  m_server_fd :: int
  m_port :: int
  m_server_stop :: bool

definition Server_destroy ::
  "server_ptr \<Rightarrow> sigaction_rcs \<Rightarrow> server_object \<times> signal_state \<Rightarrow> server_object \<times> signal_state" where
  "Server_destroy this rcs s =
     (let obj = fst s; st = snd s;
          obj1 = (if m_server_fd obj \<ge> 0 then obj\<lparr>m_server_fd := -1\<rparr> else obj)
      in if g_server_instance st = Some this
         then (obj1, signal_handler_uninstall rcs (st\<lparr>g_server_instance := None\<rparr>))
         else (obj1, st))"

section \<open>The network server: request handling (src/network/server.cpp)\<close>

text \<open>
  The request types are the labels of the switch in
  \<open>Server::ConnectionHandler::handle_request\<close>; \<open>INVALID_REQUEST\<close> stands for every other
  value the type field of a received message can hold (the \<open>default\<close> label).
\<close>

datatype RequestType =
    TERMINATE_WORKER | TERMINATE_SERVER | TERMINATE_ON_LAST_CONNECTION | LIBRARY_NAME
  | ON_MAIN_INIT | ON_THREAD_INIT | ON_THREAD_DESTROY | ON_MAIN_DESTROY
  | NUM_EDGES | NUM_VERTICES | IS_DIRECTED | HAS_VERTEX | HAS_EDGE | GET_WEIGHT
  | LOAD | ADD_VERTEX | REMOVE_VERTEX | ADD_EDGE | REMOVE_EDGE | DUMP_CLIENT
  | BFS | PAGERANK | WCC | CDLP | LCC | SSSP
  | INVALID_REQUEST nat

datatype ResponseType = OK | NOT_SUPPORTED | ERROR

datatype payload =
    No_payload
  | Payload_word "64 word"
  | Payload_bool bool
  | Payload_string string

text \<open>
  A request gives its type and its arguments: \<open>request()->get(i)\<close> reads the \<open>i\<close>-th
  8-byte slot (the typed reads \<open>get<int>\<close> and \<open>get<double>\<close> reinterpret the same slot,
  so the model passes the raw slot on), \<open>request()->get_string(i)\<close> a string.
\<close>

record request =
  rq_type :: RequestType
  rq_get :: "nat \<Rightarrow> 64 word"
  rq_get_string :: "nat \<Rightarrow> string"

datatype library_call =
    Call_on_main_init "64 word"
  | Call_on_thread_init "64 word"
  | Call_on_thread_destroy "64 word"
  | Call_on_main_destroy
  | Call_num_edges
  | Call_num_vertices
  | Call_is_directed
  | Call_has_vertex "64 word"
  | Call_has_edge "64 word" "64 word"
  | Call_get_weight "64 word" "64 word"
  | Call_load string
  | Call_add_vertex "64 word"
  | Call_remove_vertex "64 word"
  | Call_add_edge "64 word" "64 word" "64 word"
  | Call_remove_edge "64 word" "64 word"
  | Call_dump_ostream
  | Call_bfs "64 word" string
  | Call_pagerank "64 word" "64 word" string
  | Call_wcc string
  | Call_cdlp "64 word" string
  | Call_lcc string
  | Call_sssp "64 word" string

text \<open>
  The configured library, as the handler sees it: which of the three interfaces the object
  implements (what the three \<open>dynamic_cast\<close>s find), and what each call does at the moment
  of the request: it returns a value, or throws a \<open>common::Error\<close> with a message.
\<close>

record library_interface =
  is_LoaderInterface :: bool
  is_UpdateInterface :: bool
  is_GraphalyticsInterface :: bool
  invoke :: "library_call \<Rightarrow> string + payload"

datatype log_line =
    Log_not_supported RequestType
  | Log_load_attempt string

text \<open>
  The state one request can change: the handler's \<open>m_terminate\<close>, the two flags of the
  server it belongs to, and, as a record of what happened, the responses sent on the socket,
  the library calls made and the lines logged.
\<close>

record connection =
  m_terminate :: bool
  instance_server_stop :: bool
  instance_terminate_on_last_connection :: bool
  sent :: "(ResponseType \<times> payload) list"
  invoked :: "library_call list"
  logged :: "log_line list"

text \<open>
  \<open>response\<close> builds the message and \<open>send_message\<close> sends it; when \<open>send\<close> returns
  \<open>-1\<close> (\<open>send_ok\<close> false) it throws and nothing is sent.
\<close>

definition response ::
  "bool \<Rightarrow> ResponseType \<Rightarrow> payload \<Rightarrow> connection \<Rightarrow> (string \<times> connection) + connection" where
  "response send_ok t p c =
     (if send_ok then Inr (c\<lparr>sent := sent c @ [(t, p)]\<rparr>)
      else Inl (''send_response, connection error'', c))"

definition call_library ::
  "library_interface \<Rightarrow> library_call \<Rightarrow> connection \<Rightarrow> (string \<times> connection) + (payload \<times> connection)" where
  "call_library i lc c =
     (let c1 = c\<lparr>invoked := invoked c @ [lc]\<rparr>
      in case invoke i lc of Inl msg \<Rightarrow> Inl (msg, c1) | Inr v \<Rightarrow> Inr (v, c1))"

text \<open>The common shape of a case: call the library, then answer \<open>OK\<close> with a payload.\<close>

definition call_then_respond ::
  "library_interface \<Rightarrow> bool \<Rightarrow> library_call \<Rightarrow> (payload \<Rightarrow> payload) \<Rightarrow> connection
     \<Rightarrow> (string \<times> connection) + connection" where
  "call_then_respond i send_ok lc pf c =
     (case call_library i lc c of
        Inl e \<Rightarrow> Inl e
      | Inr (v, c1) \<Rightarrow> response send_ok OK (pf v) c1)"

definition not_supported ::
  "bool \<Rightarrow> RequestType \<Rightarrow> connection \<Rightarrow> (string \<times> connection) + connection" where
  "not_supported send_ok t c =
     response send_ok NOT_SUPPORTED No_payload (c\<lparr>logged := logged c @ [Log_not_supported t]\<rparr>)"

definition bool_as_word :: "payload \<Rightarrow> payload" where
  "bool_as_word p = (case p of Payload_bool b \<Rightarrow> Payload_word (if b then 1 else 0) | _ \<Rightarrow> p)"

text \<open>The body of the \<open>try\<close> block: the switch over the request type.\<close>

definition handle_request_switch ::
  "library_interface \<Rightarrow> string \<Rightarrow> bool \<Rightarrow> request \<Rightarrow> connection \<Rightarrow> (string \<times> connection) + connection" where
  "handle_request_switch i library_name send_ok r c =
     (case rq_type r of
        TERMINATE_WORKER \<Rightarrow>
          (case response send_ok OK No_payload c of
             Inl e \<Rightarrow> Inl e
           | Inr c1 \<Rightarrow> Inr (c1\<lparr>m_terminate := True\<rparr>))
      | TERMINATE_SERVER \<Rightarrow>
          (case response send_ok OK No_payload c of
             Inl e \<Rightarrow> Inl e
           | Inr c1 \<Rightarrow> Inr (c1\<lparr>m_terminate := True, instance_server_stop := True\<rparr>))
      | TERMINATE_ON_LAST_CONNECTION \<Rightarrow>
          (case response send_ok OK No_payload c of
             Inl e \<Rightarrow> Inl e
           | Inr c1 \<Rightarrow> Inr (c1\<lparr>instance_terminate_on_last_connection := True\<rparr>))
      | LIBRARY_NAME \<Rightarrow> response send_ok OK (Payload_string library_name) c
      | ON_MAIN_INIT \<Rightarrow>
          call_then_respond i send_ok (Call_on_main_init (rq_get r 0)) (\<lambda>_. No_payload) c
      | ON_THREAD_INIT \<Rightarrow>
          call_then_respond i send_ok (Call_on_thread_init (rq_get r 0)) (\<lambda>_. No_payload) c
      | ON_THREAD_DESTROY \<Rightarrow>
          call_then_respond i send_ok (Call_on_thread_destroy (rq_get r 0)) (\<lambda>_. No_payload) c
      | ON_MAIN_DESTROY \<Rightarrow> call_then_respond i send_ok Call_on_main_destroy (\<lambda>_. No_payload) c
      | NUM_EDGES \<Rightarrow> call_then_respond i send_ok Call_num_edges (\<lambda>v. v) c
      | NUM_VERTICES \<Rightarrow> call_then_respond i send_ok Call_num_vertices (\<lambda>v. v) c
      | IS_DIRECTED \<Rightarrow> call_then_respond i send_ok Call_is_directed bool_as_word c
      | HAS_VERTEX \<Rightarrow> call_then_respond i send_ok (Call_has_vertex (rq_get r 0)) (\<lambda>v. v) c
      | HAS_EDGE \<Rightarrow>
          call_then_respond i send_ok (Call_has_edge (rq_get r 0) (rq_get r 1)) (\<lambda>v. v) c
      | GET_WEIGHT \<Rightarrow>
          call_then_respond i send_ok (Call_get_weight (rq_get r 0) (rq_get r 1)) (\<lambda>v. v) c
      | LOAD \<Rightarrow>
          (if \<not> is_LoaderInterface i then not_supported send_ok (rq_type r) c
           else call_then_respond i send_ok (Call_load (rq_get_string r 0)) (\<lambda>_. No_payload)
                  (c\<lparr>logged := logged c @ [Log_load_attempt (rq_get_string r 0)]\<rparr>))
      | ADD_VERTEX \<Rightarrow>
          (if \<not> is_UpdateInterface i then not_supported send_ok (rq_type r) c
           else call_then_respond i send_ok (Call_add_vertex (rq_get r 0)) (\<lambda>v. v) c)
      | REMOVE_VERTEX \<Rightarrow>
          (if \<not> is_UpdateInterface i then not_supported send_ok (rq_type r) c
           else call_then_respond i send_ok (Call_remove_vertex (rq_get r 0)) (\<lambda>v. v) c)
      | ADD_EDGE \<Rightarrow>
          (if \<not> is_UpdateInterface i then not_supported send_ok (rq_type r) c
           else call_then_respond i send_ok
                  (Call_add_edge (rq_get r 0) (rq_get r 1) (rq_get r 2)) (\<lambda>v. v) c)
      | REMOVE_EDGE \<Rightarrow>
          (if \<not> is_UpdateInterface i then not_supported send_ok (rq_type r) c
           else call_then_respond i send_ok
                  (Call_remove_edge (rq_get r 0) (rq_get r 1)) (\<lambda>v. v) c)
      | DUMP_CLIENT \<Rightarrow> call_then_respond i send_ok Call_dump_ostream (\<lambda>v. v) c
      | BFS \<Rightarrow>
          (if \<not> is_GraphalyticsInterface i then not_supported send_ok (rq_type r) c
           else call_then_respond i send_ok
                  (Call_bfs (rq_get r 0) (rq_get_string r 1)) (\<lambda>_. No_payload) c)
      | PAGERANK \<Rightarrow>
          (if \<not> is_GraphalyticsInterface i then not_supported send_ok (rq_type r) c
           else call_then_respond i send_ok
                  (Call_pagerank (rq_get r 0) (rq_get r 1) (rq_get_string r 2)) (\<lambda>_. No_payload) c)
      | WCC \<Rightarrow>
          (if \<not> is_GraphalyticsInterface i then not_supported send_ok (rq_type r) c
           else call_then_respond i send_ok (Call_wcc (rq_get_string r 0)) (\<lambda>_. No_payload) c)
      | CDLP \<Rightarrow>
          (if \<not> is_GraphalyticsInterface i then not_supported send_ok (rq_type r) c
           else call_then_respond i send_ok
                  (Call_cdlp (rq_get r 0) (rq_get_string r 1)) (\<lambda>_. No_payload) c)
      | LCC \<Rightarrow>
          (if \<not> is_GraphalyticsInterface i then not_supported send_ok (rq_type r) c
           else call_then_respond i send_ok (Call_lcc (rq_get_string r 0)) (\<lambda>_. No_payload) c)
      | SSSP \<Rightarrow>
          (if \<not> is_GraphalyticsInterface i then not_supported send_ok (rq_type r) c
           else call_then_respond i send_ok
                  (Call_sssp (rq_get r 0) (rq_get_string r 1)) (\<lambda>_. No_payload) c)
      | INVALID_REQUEST n \<Rightarrow> Inl (''Invalid request type'', c))"

text \<open>
  \<open>handle_request\<close>: the switch inside \<open>try\<close>, and the handler of \<open>common::Error\<close>, which
  answers \<open>ERROR\<close> with the error's text; if that send fails too, the exception leaves
  \<open>handle_request\<close>.
\<close>

definition handle_request ::
  "library_interface \<Rightarrow> string \<Rightarrow> bool \<Rightarrow> request \<Rightarrow> connection \<Rightarrow> (string \<times> connection) + connection" where
  "handle_request i library_name send_ok r c =
     (case handle_request_switch i library_name send_ok r c of
        Inr c1 \<Rightarrow> Inr c1
      | Inl (msg, c1) \<Rightarrow> response send_ok ERROR (Payload_string msg) c1)"

definition final_connection :: "(string \<times> connection) + connection \<Rightarrow> connection" where
  "final_connection res = (case res of Inl (msg, c) \<Rightarrow> c | Inr c \<Rightarrow> c)"

section \<open>The update test on undirected graphs (src/tests/test_updates_undirected.cpp)\<close>

text \<open>
  \<open>generate_edge_stream\<close> fills a vector with two nested loops over \<open>uint64_t\<close> counters.
  The counters are modelled as natural numbers: with \<open>max_vector_id \<le> 2^64 - 2\<close> neither
  \<open>i + 2\<close> nor \<open>j += 2\<close> wraps around, and the test calls the generator with 64 (and
  1024). The weight is the \<open>double\<close> of \<open>j * 1000 + i\<close>, an integer far below \<open>2^53\<close>,
  so the conversion is exact.
\<close>

record WeightedEdge =
  m_source :: nat
  m_destination :: nat
  m_weight :: real

function generate_inner :: "nat \<Rightarrow> nat \<Rightarrow> nat \<Rightarrow> WeightedEdge list \<Rightarrow> WeightedEdge list" where
  "generate_inner max_vector_id i j edges =
     (if j < max_vector_id
      then generate_inner max_vector_id i (j + 2)
             (edges @ [\<lparr>m_source = i, m_destination = j, m_weight = real (j * 1000 + i)\<rparr>])
      else edges)"
  by pat_completeness auto
termination
  by (relation "measure (\<lambda>(m, i, j, edges). m - j)") auto

declare generate_inner.simps [simp del]

function generate_outer :: "nat \<Rightarrow> nat \<Rightarrow> WeightedEdge list \<Rightarrow> WeightedEdge list" where
  "generate_outer max_vector_id i edges =
     (if i < max_vector_id
      then generate_outer max_vector_id (i + 1) (generate_inner max_vector_id i (i + 2) edges)
      else edges)"
  by pat_completeness auto
termination
  by (relation "measure (\<lambda>(m, i, edges). m - i)") auto

declare generate_outer.simps [simp del]

definition generate_edge_stream :: "nat \<Rightarrow> WeightedEdge list" where
  "generate_edge_stream max_vector_id = generate_outer max_vector_id 1 []"

text \<open>
  What \<open>sequential\<close> reads from the interface after the insertions and \<open>build()\<close>:
  \<open>num_edges()\<close>, \<open>has_edge(a, b)\<close> and \<open>get_weight(a, b)\<close>. The checks are the
  \<open>ASSERT_*\<close> lines 83 to 97; a failed assertion ends the test, so the phase passes when
  every assertion holds. \<open>expected_value\<close> is a \<open>uint32_t\<close>, hence the \<open>mod 2 ^ 32\<close>.
\<close>

record interface_view =
  num_edges :: nat
  has_edge :: "nat \<Rightarrow> nat \<Rightarrow> bool"
  get_weight :: "nat \<Rightarrow> nat \<Rightarrow> real"

definition assert_pair :: "interface_view \<Rightarrow> nat \<Rightarrow> nat \<Rightarrow> bool" where
  "assert_pair g i j =
     (if (i + j) mod 2 = 0
      then has_edge g i j \<and> has_edge g j i
           \<and> get_weight g i j = real ((j * 1000 + i) mod 2 ^ 32)
           \<and> get_weight g j i = real ((j * 1000 + i) mod 2 ^ 32)
      else \<not> has_edge g i j \<and> \<not> has_edge g j i)"

function check_inner :: "interface_view \<Rightarrow> nat \<Rightarrow> nat \<Rightarrow> nat \<Rightarrow> bool" where
  "check_inner g max_vertex_id i j =
     (if j < max_vertex_id
      then assert_pair g i j \<and> check_inner g max_vertex_id i (j + 1)
      else True)"
  by pat_completeness auto
termination
  by (relation "measure (\<lambda>(g, m, i, j). m - j)") auto

declare check_inner.simps [simp del]

function check_outer :: "interface_view \<Rightarrow> nat \<Rightarrow> nat \<Rightarrow> bool" where
  "check_outer g max_vertex_id i =
     (if i < max_vertex_id
      then check_inner g max_vertex_id i (i + 1) \<and> check_outer g max_vertex_id (i + 1)
      else True)"
  by pat_completeness auto
termination
  by (relation "measure (\<lambda>(g, m, i). m - i)") auto

declare check_outer.simps [simp del]

definition check_all_inserted :: "interface_view \<Rightarrow> nat \<Rightarrow> nat \<Rightarrow> bool" where
  "check_all_inserted g stream_num_edges max_vertex_id =
     (num_edges g = stream_num_edges \<and> check_outer g max_vertex_id 1)"

section \<open>The aging experiment: the master (src/experiment/details/aging2_master.cpp)\<close>

subsection \<open>Parameters, result, log and environment\<close>

text \<open>
  The numeric parameters of \<open>Aging2Experiment\<close> (aging2_experiment.hpp). The library under
  evaluation and the path of the log are represented by what the master observes of them:
  see \<open>graphlog\<close> and \<open>run_environment\<close> below.
\<close>

record Aging2Experiment =
  m_num_threads :: "64 word"
  m_worker_granularity :: "64 word"
  m_build_frequency :: nat
  m_report_progress :: bool
  m_num_reports_per_operations :: "64 word"
  m_measure_latency :: bool

text \<open>The fields of \<open>Aging2Result\<close> the master reads or writes.\<close>

record Aging2Result =
  m_num_artificial_vertices :: "64 word"
  m_num_vertices_load :: "64 word"
  m_num_edges_load :: "64 word"
  m_num_operations_total :: "64 word"
  m_num_vertices_final_graph :: "64 word"
  m_num_edges_final_graph :: "64 word"
  m_completion_time :: "64 word"
  m_num_build_invocations :: "64 word"
  m_random_vertex_id :: "64 word"
  m_reported_times :: "64 word list"

text \<open>
  Modelled from the spec: the constructor \<open>Aging2Result(parameters)\<close> (aging2_result.hpp
  is not among the sources). A fresh result has every counter zero and no reported time;
  \<open>load_edges\<close> relies on \<open>m_random_vertex_id == 0\<close> meaning "not set yet".
\<close>

definition Aging2Result_new :: Aging2Result where
  "Aging2Result_new =
     \<lparr>m_num_artificial_vertices = 0, m_num_vertices_load = 0, m_num_edges_load = 0,
      m_num_operations_total = 0, m_num_vertices_final_graph = 0, m_num_edges_final_graph = 0,
      m_completion_time = 0, m_num_build_invocations = 0, m_random_vertex_id = 0,
      m_reported_times = []\<rparr>"

text \<open>
  One entry of a batch of the log's edge section. \<open>EdgeLoader::load\<close> fills the array with
  \<open>n\<close> sources, then \<open>n\<close> destinations, then \<open>n\<close> weights (\<open>double\<close>), and returns \<open>n\<close>;
  the master reads entry \<open>i\<close> as \<open>sources[i]\<close>, \<open>destinations[i]\<close>, \<open>weights[i]\<close>. A batch
  is modelled as the list of its \<open>n\<close> entries. Weights are compared with zero only; they
  are modelled as reals (a NaN weight, for which \<open>weights[i] <= 0\<close> is false, is not
  represented).
\<close>

record log_edge =
  le_source :: "64 word"
  le_destination :: "64 word"
  le_weight :: real

text \<open>
  The log file as the master reads it: the five properties (already parsed by \<open>stoull\<close>),
  the batches that the successive calls of \<open>EdgeLoader::load\<close> return (the first empty
  batch, or the end of the list, is the call that returns 0), and the temporary vertices.
\<close>

record graphlog =
  vertices_temporary_cardinality :: "64 word"
  vertices_final_cardinality :: "64 word"
  edges_final :: "64 word"
  edges_cardinality :: "64 word"
  edges_block_size :: "64 word"
  edge_batches :: "log_edge list list"
  temporary_vertices :: "64 word list"

text \<open>
  What the rest of the system does during one run, as far as the master can observe it:
  the slots of \<open>m_reported_times\<close> the workers write while they execute the updates (in
  order, as slot and value) and the value they leave in \<open>m_last_time_reported\<close>; the
  timer's reading; the build service's count; and what the library answers to
  \<open>num_vertices()\<close> and \<open>num_edges()\<close> at the end. The workers' code
  (aging2_worker.cpp) is not among the sources, so nothing is assumed about these values.
\<close>

record run_environment =
  worker_writes :: "(nat \<times> 64 word) list"
  worker_last_time_reported :: nat
  timer_microseconds :: "64 word"
  build_invocations :: "64 word"
  sut_num_vertices :: "64 word"
  sut_num_edges :: "64 word"

text \<open>
  The calls the master makes on the library, on its workers, on the build service and on its
  timer, in the order it makes them. The argument of the thread-lifecycle calls and of the
  build service's constructor is an \<open>int\<close>.
\<close>

datatype event =
    Lib_is_directed
  | is_Lib_on_main_init: Lib_on_main_init int
  | is_Lib_on_thread_init: Lib_on_thread_init int
  | is_Lib_on_thread_destroy: Lib_on_thread_destroy int
  | Lib_on_main_destroy
  | Lib_build
  | Lib_num_vertices
  | Lib_num_edges
  | is_Worker_new: Worker_new nat
  | Worker_delete nat
  | Worker_load_edges nat
  | is_Worker_execute_updates: Worker_execute_updates nat
  | is_Worker_remove_vertices: Worker_remove_vertices nat
  | Worker_wait nat
  | is_BuildThread_new: BuildThread_new int nat
  | BuildThread_stop
  | BuildThread_num_invocations
  | BuildThread_delete
  | Timer_start
  | Timer_stop
  | Store_completion_time

datatype cout_token = Str string | Num "64 word" | Endl

text \<open>
  The master. \<open>m_reported_times_array\<close> is the member \<open>uint64_t* m_reported_times\<close> (the
  name \<open>m_reported_times\<close> is taken by the result's vector); \<open>events\<close> and \<open>cout\<close>
  record the calls made and the tokens written to standard output by
  \<open>log_num_vtx_edges\<close> (the progress lines of the \<open>LOG\<close> macro are not recorded).
\<close>

record Aging2Master =
  m_parameters :: Aging2Experiment
  m_is_directed :: bool
  m_results :: Aging2Result
  m_reported_times_array :: "64 word list"
  m_workers :: "nat list"
  m_last_progress_reported :: nat
  m_last_time_reported :: nat
  events :: "event list"
  cout :: "cout_token list"

datatype master_error =
    Undefined_array_size
  | Write_outside_reported_times nat
  | Read_outside_reported_times nat

subsection \<open>Construction and destruction\<close>

text \<open>
  The conversion of a \<open>uint64_t\<close> to \<open>int\<close> (32 bits, two's complement): the low 32 bits.
\<close>

definition int_of_uint64 :: "64 word \<Rightarrow> int" where
  "int_of_uint64 w = sint (ucast w :: 32 word)"

text \<open>
  The number of slots of \<open>m_reported_times\<close>:
  \<open>static_cast<uint64_t>(::ceil(static_cast<double>(num_operations_total()) /
  num_edges_final_graph()) + 1)\<close>. Both counts are converted to \<open>double\<close>, the quotient
  and the sum are computed in \<open>double\<close>, and a \<open>double\<close> has 53 significant bits, each
  operation rounding its exact result to the nearest representable value, ties to the even
  significand. All the values here are positive and between \<open>2^-64\<close> and \<open>2^65\<close>, far
  from overflow and underflow, so the arithmetic is modelled on natural numbers.

  \<open>bit_length n\<close> is the number of binary digits of \<open>n\<close>; \<open>round_half_even_div n d\<close> is
  \<open>n / d\<close> rounded to the nearest integer, ties to even; \<open>double_of_nat n\<close> is the value
  of the \<open>double\<close> nearest to the integer \<open>n\<close> (an integer again).
\<close>

fun bit_length :: "nat \<Rightarrow> nat" where
  "bit_length n = (if n = 0 then 0 else Suc (bit_length (n div 2)))"

declare bit_length.simps [simp del]

definition round_half_even_div :: "nat \<Rightarrow> nat \<Rightarrow> nat" where
  "round_half_even_div n d =
     (let f = n div d; r = n mod d
      in if 2 * r < d then f
         else if d < 2 * r then f + 1
         else if even f then f else f + 1)"

definition double_of_nat :: "nat \<Rightarrow> nat" where
  "double_of_nat n =
     (if bit_length n \<le> 53 then n
      else 2 ^ (bit_length n - 53) * round_half_even_div n (2 ^ (bit_length n - 53)))"

text \<open>
  \<open>double_quotient_ceil x y\<close> is \<open>::ceil\<close> of the \<open>double\<close> quotient of two positive
  \<open>double\<close>s with integer values \<open>x\<close> and \<open>y\<close>. With \<open>e\<close> the exponent of the exact
  quotient (\<open>2^e \<le> x / y < 2^(e + 1)\<close>, found from the two bit lengths), the quotient is
  rounded to a multiple \<open>m * 2^(e - 52)\<close> of the spacing of the \<open>double\<close>s there; the
  ceiling of that value is exact.
\<close>

definition double_quotient_ceil :: "nat \<Rightarrow> nat \<Rightarrow> nat" where
  "double_quotient_ceil x y =
     (let d = int (bit_length x) - int (bit_length y);
          e = (if (if 0 \<le> d then y * 2 ^ nat d \<le> x else y \<le> x * 2 ^ nat (- d))
               then d else d - 1);
          s = e - 52;
          m = (if 0 \<le> s then round_half_even_div x (y * 2 ^ nat s)
               else round_half_even_div (x * 2 ^ nat (- s)) y)
      in if 0 \<le> s then m * 2 ^ nat s
         else (m + 2 ^ nat (- s) - 1) div 2 ^ nat (- s))"

text \<open>
  With no edge in the final graph the quotient is infinite or NaN, and with a sum of
  \<open>2^64\<close> or more the value does not fit a \<open>uint64_t\<close>: the conversion to an integer is
  then undefined, and the model returns \<open>None\<close>.
\<close>

definition reported_times_size :: "64 word \<Rightarrow> 64 word \<Rightarrow> nat option" where
  "reported_times_size num_operations_total num_edges_final_graph =
     (if num_edges_final_graph = 0 then None
      else
        let x = double_of_nat (unat num_operations_total);
            y = double_of_nat (unat num_edges_final_graph);
            c = (if x = 0 then 0 else double_quotient_ceil x y);
            n = double_of_nat (c + 1)
        in if n < 2 ^ 64 then Some n else None)"

definition init_workers :: "Aging2Master \<Rightarrow> Aging2Master" where
  "init_workers m =
     m\<lparr>m_workers := m_workers m @ [0..<unat (m_num_threads (m_parameters m))],
       events := events m @ map Worker_new [0..<unat (m_num_threads (m_parameters m))]\<rparr>"

definition Aging2Master_new ::
  "Aging2Experiment \<Rightarrow> bool \<Rightarrow> graphlog \<Rightarrow> master_error + Aging2Master" where
  "Aging2Master_new parameters library_is_directed glog =
     (let res = Aging2Result_new
            \<lparr>m_num_artificial_vertices := vertices_temporary_cardinality glog,
             m_num_vertices_load := vertices_final_cardinality glog,
             m_num_edges_load := edges_final glog,
             m_num_operations_total := edges_cardinality glog\<rparr>
      in case reported_times_size (m_num_operations_total res) (m_num_edges_load res) of
           None \<Rightarrow> Inl Undefined_array_size
         | Some n \<Rightarrow>
             let m0 = \<lparr>m_parameters = parameters, m_is_directed = library_is_directed,
                       m_results = res, m_reported_times_array = replicate n 0,
                       m_workers = [], m_last_progress_reported = 0, m_last_time_reported = 0,
                       events = [Lib_is_directed,
                                 Lib_on_main_init (int_of_uint64 (m_num_threads parameters + 2))],
                       cout = []\<rparr>;
                 m1 = init_workers m0
             in Inr (m1\<lparr>events := events m1 @
                          [Lib_on_thread_init (int_of_uint64 (m_num_threads parameters))]\<rparr>))"

definition Aging2Master_destroy :: "Aging2Master \<Rightarrow> Aging2Master" where
  "Aging2Master_destroy m =
     m\<lparr>events := events m @ map Worker_delete (m_workers m) @
                 [Lib_on_thread_destroy (int_of_uint64 (m_num_threads (m_parameters m))),
                  Lib_on_main_destroy],
       m_workers := [],
       m_reported_times_array := []\<rparr>"

subsection \<open>Loading the edges\<close>

text \<open>
  \<open>set_random_vertex_id\<close>: skip the entries whose weight is not positive (the deletions);
  if an entry is left, its source becomes the random vertex id.
\<close>

function first_insertion :: "log_edge list \<Rightarrow> nat \<Rightarrow> nat" where
  "first_insertion edges i =
     (if i < length edges \<and> le_weight (edges ! i) \<le> 0 then first_insertion edges (i + 1) else i)"
  by pat_completeness auto
termination
  by (relation "measure (\<lambda>(edges, i). length edges - i)") auto

declare first_insertion.simps [simp del]

definition set_random_vertex_id :: "Aging2Master \<Rightarrow> log_edge list \<Rightarrow> Aging2Master" where
  "set_random_vertex_id m edges =
     (let i = first_insertion edges 0
      in if i < length edges
         then m\<lparr>m_results := (m_results m)\<lparr>m_random_vertex_id := le_source (edges ! i)\<rparr>\<rparr>
         else m)"

text \<open>
  The loop of \<open>load_edges\<close> over the batches: hand the batch to every worker, set the random
  vertex id if it is still zero, read the next batch, wait for the workers.
\<close>

fun load_edges_loop :: "Aging2Master \<Rightarrow> log_edge list list \<Rightarrow> Aging2Master" where
  "load_edges_loop m [] = m"
| "load_edges_loop m (batch # rest) =
     (if length batch > 0
      then
        let m1 = m\<lparr>events := events m @ map Worker_load_edges (m_workers m)\<rparr>;
            m2 = (if m_random_vertex_id (m_results m1) = 0
                  then set_random_vertex_id m1 batch else m1);
            m3 = m2\<lparr>events := events m2 @ map Worker_wait (m_workers m2)\<rparr>
        in load_edges_loop m3 rest
      else m)"

definition load_edges :: "Aging2Master \<Rightarrow> graphlog \<Rightarrow> Aging2Master" where
  "load_edges m glog = load_edges_loop m (edge_batches glog)"

subsection \<open>Running the experiment\<close>

text \<open>
  A worker's write into \<open>m_reported_times\<close>; outside the array it is undefined behaviour.
\<close>

fun apply_worker_writes ::
  "(nat \<times> 64 word) list \<Rightarrow> 64 word list \<Rightarrow> master_error + 64 word list" where
  "apply_worker_writes [] arr = Inr arr"
| "apply_worker_writes ((i, t) # ws) arr =
     (if i < length arr then apply_worker_writes ws (arr[i := t])
      else Inl (Write_outside_reported_times i))"

text \<open>
  \<open>do_run_experiment\<close>. Constructing the \<open>BuildThread\<close> starts the build service; its
  destructor runs when the function returns.
\<close>

definition do_run_experiment ::
  "Aging2Master \<Rightarrow> run_environment \<Rightarrow> master_error + Aging2Master" where
  "do_run_experiment m env =
     (let m1 = m\<lparr>m_last_progress_reported := 0, m_last_time_reported := 0\<rparr>;
          m2 = m1\<lparr>events := events m1 @
                    [BuildThread_new (int_of_uint64 (m_num_threads (m_parameters m1)) + 1)
                       (m_build_frequency (m_parameters m1)),
                     Timer_start]
                    @ map Worker_execute_updates (m_workers m1)
                    @ map Worker_wait (m_workers m1)\<rparr>
      in case apply_worker_writes (worker_writes env) (m_reported_times_array m2) of
           Inl e \<Rightarrow> Inl e
         | Inr arr \<Rightarrow>
             let m3 = m2\<lparr>m_reported_times_array := arr,
                         m_last_time_reported := worker_last_time_reported env\<rparr>;
                 m4 = m3\<lparr>events := events m3 @ [BuildThread_stop, Lib_build, Timer_stop]\<rparr>;
                 m5 = m4\<lparr>m_results := (m_results m4)
                           \<lparr>m_completion_time := timer_microseconds env\<rparr>,
                         events := events m4 @ [Store_completion_time]\<rparr>;
                 m6 = m5\<lparr>m_results := (m_results m5)
                           \<lparr>m_num_build_invocations := build_invocations env\<rparr>,
                         events := events m5 @ [BuildThread_num_invocations, BuildThread_delete]\<rparr>
             in Inr m6)"

subsection \<open>Removing the temporary vertices, storing and reporting the results\<close>

definition remove_vertices :: "Aging2Master \<Rightarrow> graphlog \<Rightarrow> Aging2Master" where
  "remove_vertices m glog =
     m\<lparr>m_results := (m_results m)
          \<lparr>m_num_artificial_vertices := vertices_temporary_cardinality glog\<rparr>,
       events := events m @ map Worker_remove_vertices (m_workers m)
                 @ map Worker_wait (m_workers m) @ [Lib_build]\<rparr>"

text \<open>
  The loop of \<open>store_results\<close>: push \<open>m_reported_times[i]\<close> for \<open>i\<close> from 0 below \<open>sz\<close>.
  Reading past the end of the array is undefined behaviour.
\<close>

function copy_reported_times ::
  "64 word list \<Rightarrow> nat \<Rightarrow> nat \<Rightarrow> 64 word list \<Rightarrow> master_error + 64 word list" where
  "copy_reported_times arr i sz vec =
     (if i < sz
      then (if i < length arr then copy_reported_times arr (i + 1) sz (vec @ [arr ! i])
            else Inl (Read_outside_reported_times i))
      else Inr vec)"
  by pat_completeness auto
termination
  by (relation "measure (\<lambda>(arr, i, sz, vec). sz - i)") auto

declare copy_reported_times.simps [simp del]

definition store_results :: "Aging2Master \<Rightarrow> run_environment \<Rightarrow> master_error + Aging2Master" where
  "store_results m env =
     (let m1 = m\<lparr>m_results := (m_results m)
                   \<lparr>m_num_vertices_final_graph := sut_num_vertices env,
                    m_num_edges_final_graph := sut_num_edges env\<rparr>,
                 events := events m @ [Lib_num_vertices, Lib_num_edges]\<rparr>
      in case copy_reported_times (m_reported_times_array m1) 0 (m_last_time_reported m1)
                (m_reported_times (m_results m1)) of
           Inl e \<Rightarrow> Inl e
         | Inr vec \<Rightarrow> Inr (m1\<lparr>m_results := (m_results m1)\<lparr>m_reported_times := vec\<rparr>\<rparr>))"

definition log_num_vtx_edges :: "Aging2Master \<Rightarrow> Aging2Master" where
  "log_num_vtx_edges m =
     m\<lparr>cout := cout m
         @ [Str ''[Aging2] Number of stored vertices: '',
            Num (m_num_vertices_final_graph (m_results m)), Str '' [match: '']
         @ (if m_num_vertices_load (m_results m) = m_num_vertices_final_graph (m_results m)
            then [Str ''yes'']
            else [Str ''no, expected '', Num (m_num_vertices_load (m_results m))])
         @ [Str ''], number of stored edges: '',
            Num (m_num_edges_final_graph (m_results m)), Str '' [match: '']
         @ (if m_num_edges_load (m_results m) = m_num_edges_final_graph (m_results m)
            then [Str ''yes'']
            else [Str ''no, expected '', Num (m_num_edges_load (m_results m))])
         @ [Str '']'', Endl]\<rparr>"

text \<open>\<open>execute\<close> returns the result; the model also returns the master's final state.\<close>

definition execute ::
  "Aging2Master \<Rightarrow> graphlog \<Rightarrow> run_environment \<Rightarrow> master_error + (Aging2Result \<times> Aging2Master)" where
  "execute m glog env =
     (case do_run_experiment (load_edges m glog) env of
        Inl e \<Rightarrow> Inl e
      | Inr m2 \<Rightarrow>
          (case store_results (remove_vertices m2 glog) env of
             Inl e \<Rightarrow> Inl e
           | Inr m4 \<Rightarrow> Inr (m_results (log_num_vtx_edges m4), log_num_vtx_edges m4)))"

text \<open>A whole run: construct the master, execute, destroy the master.\<close>

definition master_run ::
  "Aging2Experiment \<Rightarrow> bool \<Rightarrow> graphlog \<Rightarrow> run_environment
     \<Rightarrow> master_error + (Aging2Result \<times> Aging2Master)" where
  "master_run parameters library_is_directed glog env =
     (case Aging2Master_new parameters library_is_directed glog of
        Inl e \<Rightarrow> Inl e
      | Inr m \<Rightarrow>
          (case execute m glog env of
             Inl e \<Rightarrow> Inl e
           | Inr (res, m') \<Rightarrow> Inr (res, Aging2Master_destroy m')))"

text \<open>
  The size the specification states for \<open>m_reported_times\<close>, written from its words:
  \<open>ceil(num_operations_total / num_edges_load) * num_reports_per_ops + 1\<close>.
\<close>

definition spec_reported_times_size :: "nat \<Rightarrow> nat \<Rightarrow> nat \<Rightarrow> nat" where
  "spec_reported_times_size num_operations_total num_edges_load num_reports_per_ops =
     nat \<lceil>real num_operations_total / real num_edges_load\<rceil> * num_reports_per_ops + 1"

subsection \<open>Order of the calls in a trace\<close>

text \<open>
  \<open>all_before P Q tr\<close>: in the trace \<open>tr\<close>, every call that satisfies \<open>P\<close> comes
  strictly before every call that satisfies \<open>Q\<close>. That some calls occur in a given order
  (not necessarily next to each other) is \<open>subseq\<close> of the library.
\<close>

fun all_before :: "('a \<Rightarrow> bool) \<Rightarrow> ('a \<Rightarrow> bool) \<Rightarrow> 'a list \<Rightarrow> bool" where
  "all_before P Q [] = True"
| "all_before P Q (x # xs) = ((Q x \<longrightarrow> \<not> P x \<and> \<not> list_ex P xs) \<and> all_before P Q xs)"

section \<open>Properties\<close>

subsection \<open>Signal handling\<close>

lemma handle_signals_registered:
  "g_server_instance st = Some this \<Longrightarrow> handle_signals this rcs st = Inr st"
  by (simp add: handle_signals_def)

lemma handle_signals_other:
  "g_server_instance st = Some other \<Longrightarrow> other \<noteq> this \<Longrightarrow>
   handle_signals this rcs st = Inl (Error_handler_already_installed other, st)"
  by (simp add: handle_signals_def)

lemma handle_signals_fresh:
  "g_server_instance st = None \<Longrightarrow> rc_sigterm rcs = 0 \<Longrightarrow> rc_sigint rcs = 0 \<Longrightarrow>
   handle_signals this rcs st =
     Inr (st\<lparr>g_server_instance := Some this,
             g_sigaction_term := disposition_sigterm st,
             g_sigaction_interrupt := disposition_sigint st,
             disposition_sigterm := Sig_handler_execute,
             disposition_sigint := Sig_handler_execute\<rparr>)"
  by (simp add: handle_signals_def signal_handler_install_def Let_def)

text \<open>
  C7. At most one server is registered for signal handling at a time: the registration is
  the single slot \<open>g_server_instance\<close>; \<open>handle_signals\<close> on the registered server returns
  at once and changes nothing; on a server other than the registered one it raises an error
  (naming the registered one) and changes nothing; and whenever it returns normally the
  server it was called on is the registered one.
\<close>

theorem handle_signals_single_registration:
  "(g_server_instance st = Some this \<longrightarrow> handle_signals this rcs st = Inr st)
   \<and> (\<forall>other. g_server_instance st = Some other \<and> other \<noteq> this \<longrightarrow>
         handle_signals this rcs st = Inl (Error_handler_already_installed other, st))
   \<and> (\<forall>st'. handle_signals this rcs st = Inr st' \<longrightarrow> g_server_instance st' = Some this)"
proof (intro conjI allI impI)
  assume "g_server_instance st = Some this"
  then show "handle_signals this rcs st = Inr st"
    by (rule handle_signals_registered)
next
  fix other
  assume "g_server_instance st = Some other \<and> other \<noteq> this"
  then show "handle_signals this rcs st = Inl (Error_handler_already_installed other, st)"
    by (simp add: handle_signals_other)
next
  fix st'
  assume ret: "handle_signals this rcs st = Inr st'"
  show "g_server_instance st' = Some this"
  proof (cases "g_server_instance st")
    case None
    with ret show ?thesis
      by (auto simp: handle_signals_def signal_handler_install_def Let_def split: if_splits)
  next
    case (Some other)
    with ret show ?thesis
      by (auto simp: handle_signals_def split: if_splits)
  qed
qed

theorem handle_signals_single_registration_witness:
  "handle_signals 1 \<lparr>rc_sigterm = 0, rc_sigint = 0\<rparr>
     \<lparr>g_server_instance = Some 1, g_sigaction_term = Sig_default,
      g_sigaction_interrupt = Sig_default, disposition_sigterm = Sig_handler_execute,
      disposition_sigint = Sig_handler_execute, cerr = []\<rparr>
   = Inr \<lparr>g_server_instance = Some 1, g_sigaction_term = Sig_default,
      g_sigaction_interrupt = Sig_default, disposition_sigterm = Sig_handler_execute,
      disposition_sigint = Sig_handler_execute, cerr = []\<rparr>
   \<and> handle_signals 2 \<lparr>rc_sigterm = 0, rc_sigint = 0\<rparr>
     \<lparr>g_server_instance = Some 1, g_sigaction_term = Sig_default,
      g_sigaction_interrupt = Sig_default, disposition_sigterm = Sig_handler_execute,
      disposition_sigint = Sig_handler_execute, cerr = []\<rparr>
   = Inl (Error_handler_already_installed 1,
      \<lparr>g_server_instance = Some 1, g_sigaction_term = Sig_default,
      g_sigaction_interrupt = Sig_default, disposition_sigterm = Sig_handler_execute,
      disposition_sigint = Sig_handler_execute, cerr = []\<rparr>)"
  using handle_signals_single_registration
    [of "\<lparr>g_server_instance = Some 1, g_sigaction_term = Sig_default,
      g_sigaction_interrupt = Sig_default, disposition_sigterm = Sig_handler_execute,
      disposition_sigint = Sig_handler_execute, cerr = []\<rparr>" 1
      "\<lparr>rc_sigterm = 0, rc_sigint = 0\<rparr>"]
    handle_signals_single_registration
    [of "\<lparr>g_server_instance = Some 1, g_sigaction_term = Sig_default,
      g_sigaction_interrupt = Sig_default, disposition_sigterm = Sig_handler_execute,
      disposition_sigint = Sig_handler_execute, cerr = []\<rparr>" 2
      "\<lparr>rc_sigterm = 0, rc_sigint = 0\<rparr>"]
  by simp

lemma Server_destroy_not_registered:
  "g_server_instance st \<noteq> Some this \<Longrightarrow> snd (Server_destroy this rcs (obj, st)) = st"
  by (simp add: Server_destroy_def Let_def)

lemma Server_destroy_registered:
  "g_server_instance st = Some this \<Longrightarrow>
   snd (Server_destroy this rcs (obj, st)) =
     signal_handler_uninstall rcs (st\<lparr>g_server_instance := None\<rparr>)"
  by (simp add: Server_destroy_def Let_def)

lemma signal_handler_uninstall_instance:
  "g_server_instance (signal_handler_uninstall rcs st) = g_server_instance st"
  by (simp add: signal_handler_uninstall_def Let_def)

lemma signal_handler_uninstall_restores:
  "rc_sigterm rcs = 0 \<Longrightarrow> rc_sigint rcs = 0 \<Longrightarrow>
   disposition_sigterm (signal_handler_uninstall rcs st) = g_sigaction_term st
   \<and> disposition_sigint (signal_handler_uninstall rcs st) = g_sigaction_interrupt st"
  by (simp add: signal_handler_uninstall_def Let_def)

text \<open>
  C10. Destroying a server that is not the registered one leaves the whole process-wide
  signal state as it was (the singleton, the saved and the installed dispositions); the
  destructor changes that state exactly when it runs on the registered server, and then it
  clears the singleton and, where \<open>sigaction\<close> succeeds, puts back the dispositions saved at
  installation.
\<close>

theorem Server_destroy_registration_frame:
  "(g_server_instance st \<noteq> Some this \<longrightarrow> snd (Server_destroy this rcs (obj, st)) = st)
   \<and> (snd (Server_destroy this rcs (obj, st)) = st \<longleftrightarrow> g_server_instance st \<noteq> Some this)
   \<and> (g_server_instance st = Some this \<longrightarrow>
        g_server_instance (snd (Server_destroy this rcs (obj, st))) = None
        \<and> (rc_sigterm rcs = 0 \<and> rc_sigint rcs = 0 \<longrightarrow>
             disposition_sigterm (snd (Server_destroy this rcs (obj, st))) = g_sigaction_term st
             \<and> disposition_sigint (snd (Server_destroy this rcs (obj, st))) = g_sigaction_interrupt st))"
proof (cases "g_server_instance st = Some this")
  case True
  have reg: "snd (Server_destroy this rcs (obj, st)) =
      signal_handler_uninstall rcs (st\<lparr>g_server_instance := None\<rparr>)"
    using True by (rule Server_destroy_registered)
  have cleared: "g_server_instance (snd (Server_destroy this rcs (obj, st))) = None"
    by (simp add: reg signal_handler_uninstall_instance)
  then have changed: "snd (Server_destroy this rcs (obj, st)) \<noteq> st"
    using True by auto
  show ?thesis
    using True cleared changed
    by (simp add: reg signal_handler_uninstall_restores)
next
  case False
  then show ?thesis
    by (simp add: Server_destroy_not_registered)
qed

theorem Server_destroy_registration_frame_witness:
  "snd (Server_destroy 2 \<lparr>rc_sigterm = 0, rc_sigint = 0\<rparr>
      (\<lparr>m_server_fd = 5, m_port = 18286, m_server_stop = False\<rparr>,
       \<lparr>g_server_instance = Some 1, g_sigaction_term = Sig_default,
        g_sigaction_interrupt = Sig_other 7, disposition_sigterm = Sig_handler_execute,
        disposition_sigint = Sig_handler_execute, cerr = []\<rparr>))
   = \<lparr>g_server_instance = Some 1, g_sigaction_term = Sig_default,
        g_sigaction_interrupt = Sig_other 7, disposition_sigterm = Sig_handler_execute,
        disposition_sigint = Sig_handler_execute, cerr = []\<rparr>
   \<and> g_server_instance (snd (Server_destroy 1 \<lparr>rc_sigterm = 0, rc_sigint = 0\<rparr>
      (\<lparr>m_server_fd = 5, m_port = 18286, m_server_stop = False\<rparr>,
       \<lparr>g_server_instance = Some 1, g_sigaction_term = Sig_default,
        g_sigaction_interrupt = Sig_other 7, disposition_sigterm = Sig_handler_execute,
        disposition_sigint = Sig_handler_execute, cerr = []\<rparr>))) = None
   \<and> disposition_sigint (snd (Server_destroy 1 \<lparr>rc_sigterm = 0, rc_sigint = 0\<rparr>
      (\<lparr>m_server_fd = 5, m_port = 18286, m_server_stop = False\<rparr>,
       \<lparr>g_server_instance = Some 1, g_sigaction_term = Sig_default,
        g_sigaction_interrupt = Sig_other 7, disposition_sigterm = Sig_handler_execute,
        disposition_sigint = Sig_handler_execute, cerr = []\<rparr>))) = Sig_other 7"
  using Server_destroy_registration_frame
    [of "\<lparr>g_server_instance = Some 1, g_sigaction_term = Sig_default,
        g_sigaction_interrupt = Sig_other 7, disposition_sigterm = Sig_handler_execute,
        disposition_sigint = Sig_handler_execute, cerr = []\<rparr>" 2
        "\<lparr>rc_sigterm = 0, rc_sigint = 0\<rparr>"
        "\<lparr>m_server_fd = 5, m_port = 18286, m_server_stop = False\<rparr>"]
    Server_destroy_registration_frame
    [of "\<lparr>g_server_instance = Some 1, g_sigaction_term = Sig_default,
        g_sigaction_interrupt = Sig_other 7, disposition_sigterm = Sig_handler_execute,
        disposition_sigint = Sig_handler_execute, cerr = []\<rparr>" 1
        "\<lparr>rc_sigterm = 0, rc_sigint = 0\<rparr>"
        "\<lparr>m_server_fd = 5, m_port = 18286, m_server_stop = False\<rparr>"]
  by simp

subsection \<open>Requests the configured interface does not support\<close>

lemma handle_request_switch_not_supported:
  assumes "(rq_type r = LOAD \<and> \<not> is_LoaderInterface i)
     \<or> (rq_type r \<in> {ADD_VERTEX, REMOVE_VERTEX, ADD_EDGE, REMOVE_EDGE} \<and> \<not> is_UpdateInterface i)
     \<or> (rq_type r \<in> {BFS, PAGERANK, WCC, CDLP, LCC, SSSP} \<and> \<not> is_GraphalyticsInterface i)"
  shows "handle_request_switch i name send_ok r c = not_supported send_ok (rq_type r) c"
  using assms by (auto simp: handle_request_switch_def)

lemma not_supported_sent:
  "not_supported True t c =
     Inr (c\<lparr>logged := logged c @ [Log_not_supported t],
            sent := sent c @ [(NOT_SUPPORTED, No_payload)]\<rparr>)"
  by (simp add: not_supported_def response_def)

lemma not_supported_send_fails:
  "not_supported False t c =
     Inl (''send_response, connection error'', c\<lparr>logged := logged c @ [Log_not_supported t]\<rparr>)"
  by (simp add: not_supported_def response_def)

text \<open>
  C8. For a request whose type needs an interface the configured library does not implement
  (\<open>LOAD\<close> without the loader interface; \<open>ADD_VERTEX\<close>, \<open>REMOVE_VERTEX\<close>, \<open>ADD_EDGE\<close>,
  \<open>REMOVE_EDGE\<close> without the update interface; \<open>BFS\<close>, \<open>PAGERANK\<close>, \<open>WCC\<close>, \<open>CDLP\<close>,
  \<open>LCC\<close>, \<open>SSSP\<close> without the Graphalytics interface), the handler returns normally having
  sent exactly one response, \<open>NOT_SUPPORTED\<close> with no payload, and logged the request type;
  it changes nothing else, and no library call is made (this last part also when the socket
  refuses the send).
\<close>

theorem handle_request_replies_not_supported:
  assumes "(rq_type r = LOAD \<and> \<not> is_LoaderInterface i)
     \<or> (rq_type r \<in> {ADD_VERTEX, REMOVE_VERTEX, ADD_EDGE, REMOVE_EDGE} \<and> \<not> is_UpdateInterface i)
     \<or> (rq_type r \<in> {BFS, PAGERANK, WCC, CDLP, LCC, SSSP} \<and> \<not> is_GraphalyticsInterface i)"
  shows "handle_request i name True r c =
           Inr (c\<lparr>logged := logged c @ [Log_not_supported (rq_type r)],
                  sent := sent c @ [(NOT_SUPPORTED, No_payload)]\<rparr>)
         \<and> invoked (final_connection (handle_request i name send_ok r c)) = invoked c"
proof
  show "handle_request i name True r c =
           Inr (c\<lparr>logged := logged c @ [Log_not_supported (rq_type r)],
                  sent := sent c @ [(NOT_SUPPORTED, No_payload)]\<rparr>)"
    by (simp add: handle_request_def handle_request_switch_not_supported [OF assms]
        not_supported_sent)
next
  show "invoked (final_connection (handle_request i name send_ok r c)) = invoked c"
  proof (cases send_ok)
    case True
    then show ?thesis
      by (simp add: handle_request_def handle_request_switch_not_supported [OF assms]
          not_supported_sent final_connection_def)
  next
    case False
    then show ?thesis
      by (simp add: handle_request_def handle_request_switch_not_supported [OF assms]
          not_supported_send_fails final_connection_def response_def)
  qed
qed

theorem handle_request_replies_not_supported_witness:
  "handle_request
     \<lparr>is_LoaderInterface = True, is_UpdateInterface = False, is_GraphalyticsInterface = True,
      invoke = (\<lambda>_. Inr (Payload_bool True))\<rparr>
     ''baseline'' True
     \<lparr>rq_type = ADD_EDGE, rq_get = (\<lambda>_. 7), rq_get_string = (\<lambda>_. [])\<rparr>
     \<lparr>m_terminate = False, instance_server_stop = False,
      instance_terminate_on_last_connection = False, sent = [], invoked = [], logged = []\<rparr>
   = Inr \<lparr>m_terminate = False, instance_server_stop = False,
      instance_terminate_on_last_connection = False,
      sent = [(NOT_SUPPORTED, No_payload)], invoked = [],
      logged = [Log_not_supported ADD_EDGE]\<rparr>"
  using handle_request_replies_not_supported
    [of "\<lparr>rq_type = ADD_EDGE, rq_get = (\<lambda>_. 7), rq_get_string = (\<lambda>_. [])\<rparr>"
        "\<lparr>is_LoaderInterface = True, is_UpdateInterface = False,
          is_GraphalyticsInterface = True, invoke = (\<lambda>_. Inr (Payload_bool True))\<rparr>"
        "''baseline''"
        "\<lparr>m_terminate = False, instance_server_stop = False,
          instance_terminate_on_last_connection = False, sent = [], invoked = [], logged = []\<rparr>"
        True]
  by simp

subsection \<open>The test's edge generator and its checks after the insertions\<close>

lemma generate_inner_set:
  "set (generate_inner m i j es) =
     set es \<union> {\<lparr>m_source = i, m_destination = j', m_weight = real (j' * 1000 + i)\<rparr> | j'.
                 j \<le> j' \<and> j' < m \<and> even (j' - j)}"
proof (induction m i j es rule: generate_inner.induct)
  case (1 m i j es)
  show ?case
  proof (cases "j < m")
    case True
    have split: "\<And>j'. (j \<le> j' \<and> j' < m \<and> even (j' - j)) =
        (j' = j \<or> (j + 2 \<le> j' \<and> j' < m \<and> even (j' - (j + 2))))"
      using True by presburger
    have "set (generate_inner m i j es) = set (generate_inner m i (j + 2)
             (es @ [\<lparr>m_source = i, m_destination = j, m_weight = real (j * 1000 + i)\<rparr>]))"
      using True by (subst generate_inner.simps) simp
    also have "\<dots> =
        set (es @ [\<lparr>m_source = i, m_destination = j, m_weight = real (j * 1000 + i)\<rparr>]) \<union>
        {\<lparr>m_source = i, m_destination = j', m_weight = real (j' * 1000 + i)\<rparr> | j'.
           j + 2 \<le> j' \<and> j' < m \<and> even (j' - (j + 2))}"
      using True by (rule 1)
    also have "\<dots> =
        set es \<union> {\<lparr>m_source = i, m_destination = j', m_weight = real (j' * 1000 + i)\<rparr> | j'.
                  j \<le> j' \<and> j' < m \<and> even (j' - j)}"
      unfolding split by auto
    finally show ?thesis .
  next
    case False
    then show ?thesis by (subst generate_inner.simps) auto
  qed
qed

lemma generate_outer_set:
  "set (generate_outer m i es) =
     set es \<union> {\<lparr>m_source = i', m_destination = j, m_weight = real (j * 1000 + i')\<rparr> | i' j.
                 i \<le> i' \<and> i' + 2 \<le> j \<and> j < m \<and> even (j - i')}"
proof (induction m i es rule: generate_outer.induct)
  case (1 m i es)
  show ?case
  proof (cases "i < m")
    case True
    have split: "\<And>i' j. (i \<le> i' \<and> i' + 2 \<le> j \<and> j < m \<and> even (j - i')) =
        ((i' = i \<and> i + 2 \<le> j \<and> j < m \<and> even (j - (i + 2)))
         \<or> (i + 1 \<le> i' \<and> i' + 2 \<le> j \<and> j < m \<and> even (j - i')))"
      by presburger
    have "set (generate_outer m i es) =
        set (generate_outer m (i + 1) (generate_inner m i (i + 2) es))"
      using True by (subst generate_outer.simps) simp
    also have "\<dots> = set (generate_inner m i (i + 2) es) \<union>
        {\<lparr>m_source = i', m_destination = j, m_weight = real (j * 1000 + i')\<rparr> | i' j.
           i + 1 \<le> i' \<and> i' + 2 \<le> j \<and> j < m \<and> even (j - i')}"
      using True by (rule 1)
    also have "\<dots> =
        set es \<union> {\<lparr>m_source = i', m_destination = j, m_weight = real (j * 1000 + i')\<rparr> | i' j.
                  i \<le> i' \<and> i' + 2 \<le> j \<and> j < m \<and> even (j - i')}"
      unfolding split generate_inner_set by auto
    finally show ?thesis .
  next
    case False
    then show ?thesis by (subst generate_outer.simps) auto
  qed
qed

lemma generate_inner_distinct:
  "distinct es \<Longrightarrow> \<forall>e \<in> set es. \<not> (m_source e = i \<and> j \<le> m_destination e) \<Longrightarrow>
   distinct (generate_inner m i j es)"
proof (induction m i j es rule: generate_inner.induct)
  case (1 m i j es)
  show ?case
  proof (cases "j < m")
    case True
    let ?e = "\<lparr>m_source = i, m_destination = j, m_weight = real (j * 1000 + i)\<rparr>"
    have fresh: "?e \<notin> set es"
      using "1.prems"(2) by force
    have d: "distinct (es @ [?e])"
      using "1.prems"(1) fresh by simp
    have later: "\<forall>e \<in> set (es @ [?e]). \<not> (m_source e = i \<and> j + 2 \<le> m_destination e)"
      using "1.prems"(2) by auto
    have "distinct (generate_inner m i (j + 2) (es @ [?e]))"
      using True d later by (rule "1.IH")
    then show ?thesis
      using True by (subst generate_inner.simps) simp
  next
    case False
    then show ?thesis
      using "1.prems"(1) by (subst generate_inner.simps) simp
  qed
qed

lemma generate_outer_distinct:
  "distinct es \<Longrightarrow> \<forall>e \<in> set es. m_source e < i \<Longrightarrow> distinct (generate_outer m i es)"
proof (induction m i es rule: generate_outer.induct)
  case (1 m i es)
  show ?case
  proof (cases "i < m")
    case True
    have d: "distinct (generate_inner m i (i + 2) es)"
      using "1.prems" by (intro generate_inner_distinct) auto
    have below: "\<forall>e \<in> set (generate_inner m i (i + 2) es). m_source e < i + 1"
      using "1.prems"(2) by (auto simp: generate_inner_set less_Suc_eq)
    have "distinct (generate_outer m (i + 1) (generate_inner m i (i + 2) es))"
      using True d below by (rule "1.IH")
    then show ?thesis
      using True by (subst generate_outer.simps) simp
  next
    case False
    then show ?thesis
      using "1.prems"(1) by (subst generate_outer.simps) simp
  qed
qed

lemma generate_edge_stream_set:
  "set (generate_edge_stream m) =
     {\<lparr>m_source = i, m_destination = j, m_weight = real (1000 * j + i)\<rparr> | i j.
        1 \<le> i \<and> i < j \<and> j < m \<and> even (j - i)}"
proof -
  have same: "\<And>i j. (1 \<le> i \<and> i + 2 \<le> j \<and> j < m \<and> even (j - i)) =
      (1 \<le> i \<and> i < j \<and> j < m \<and> even (j - i))"
    by presburger
  show ?thesis
    unfolding generate_edge_stream_def generate_outer_set same
    by (simp add: mult.commute)
qed

lemma generate_edge_stream_distinct: "distinct (generate_edge_stream m)"
  unfolding generate_edge_stream_def by (rule generate_outer_distinct) simp_all

lemma check_inner_iff:
  "check_inner g m i j \<longleftrightarrow> (\<forall>j'. j \<le> j' \<and> j' < m \<longrightarrow> assert_pair g i j')"
proof (induction g m i j rule: check_inner.induct)
  case (1 g m i j)
  show ?case
  proof (cases "j < m")
    case True
    have first: "\<And>j'. (j \<le> j' \<and> j' < m) = (j' = j \<or> (j + 1 \<le> j' \<and> j' < m))"
      using True by arith
    have "check_inner g m i j \<longleftrightarrow> assert_pair g i j \<and> check_inner g m i (j + 1)"
      using True by (subst check_inner.simps) simp
    also have "\<dots> \<longleftrightarrow> assert_pair g i j \<and> (\<forall>j'. j + 1 \<le> j' \<and> j' < m \<longrightarrow> assert_pair g i j')"
      using 1 [OF True] by simp
    also have "\<dots> \<longleftrightarrow> (\<forall>j'. j \<le> j' \<and> j' < m \<longrightarrow> assert_pair g i j')"
      unfolding first by blast
    finally show ?thesis .
  next
    case False
    then show ?thesis by (subst check_inner.simps) auto
  qed
qed

lemma check_outer_iff:
  "check_outer g m i \<longleftrightarrow> (\<forall>i' j'. i \<le> i' \<and> i' < j' \<and> j' < m \<longrightarrow> assert_pair g i' j')"
proof (induction g m i rule: check_outer.induct)
  case (1 g m i)
  show ?case
  proof (cases "i < m")
    case True
    have first: "\<And>i' j'. (i \<le> i' \<and> i' < j' \<and> j' < m) =
        ((i' = i \<and> i < j' \<and> j' < m) \<or> (i + 1 \<le> i' \<and> i' < j' \<and> j' < m))"
      by arith
    have "check_outer g m i \<longleftrightarrow> check_inner g m i (i + 1) \<and> check_outer g m (i + 1)"
      using True by (subst check_outer.simps) simp
    also have "\<dots> \<longleftrightarrow> (\<forall>j'. i < j' \<and> j' < m \<longrightarrow> assert_pair g i j')
        \<and> (\<forall>i' j'. i + 1 \<le> i' \<and> i' < j' \<and> j' < m \<longrightarrow> assert_pair g i' j')"
      using 1 [OF True] by (simp add: check_inner_iff Suc_le_eq)
    also have "\<dots> \<longleftrightarrow> (\<forall>i' j'. i \<le> i' \<and> i' < j' \<and> j' < m \<longrightarrow> assert_pair g i' j')"
      unfolding first by blast
    finally show ?thesis .
  next
    case False
    then show ?thesis by (subst check_outer.simps) auto
  qed
qed
lemma assert_pair_small:
  assumes "i < j" "j < 64"
  shows "assert_pair g i j \<longleftrightarrow>
     (if even (i + j)
      then has_edge g i j \<and> has_edge g j i
           \<and> get_weight g i j = real (1000 * j + i) \<and> get_weight g j i = real (1000 * j + i)
      else \<not> has_edge g i j \<and> \<not> has_edge g j i)"
proof -
  have "j * 1000 + i < 2 ^ 32"
    using assms by simp
  then have "(j * 1000 + i) mod 2 ^ 32 = 1000 * j + i"
    by (simp add: mult.commute)
  then show ?thesis
    unfolding assert_pair_def by (simp add: even_iff_mod_2_eq_zero)
qed

text \<open>
  C6. With bound 64 the generator produces exactly the edges \<open>(i, j)\<close> with
  \<open>1 \<le> i < j < 64\<close> and \<open>j - i\<close> even (hence at least 2), each once, with weight
  \<open>1000 * j + i\<close>. After the insertions the test's assertions hold exactly when the
  interface reports the stream's number of edges and, for every pair
  \<open>1 \<le> i < j < max_vertex_id\<close>: if \<open>i + j\<close> is even the edge is present in both
  orientations with weight \<open>1000 * j + i\<close> both ways, otherwise it is absent in both
  orientations; so a passing test has the edge present (both ways, with that weight) if and
  only if \<open>i + j\<close> is even. For \<open>i < j\<close> the generator's condition (\<open>j - i\<close> even) and the
  test's (\<open>i + j\<close> even) are the same.
\<close>

theorem generate_edge_stream_64_and_insert_checks:
  "set (generate_edge_stream 64) =
     {\<lparr>m_source = i, m_destination = j, m_weight = real (1000 * j + i)\<rparr> | i j.
        1 \<le> i \<and> i < j \<and> j < 64 \<and> even (j - i)}
   \<and> distinct (generate_edge_stream 64)
   \<and> (\<forall>i j::nat. i < j \<longrightarrow> (even (j - i) \<longleftrightarrow> even (i + j)))
   \<and> (max_vertex_id \<le> 64 \<longrightarrow>
        (check_all_inserted g n max_vertex_id \<longleftrightarrow>
           num_edges g = n
           \<and> (\<forall>i j. 1 \<le> i \<and> i < j \<and> j < max_vertex_id \<longrightarrow>
                (if even (i + j)
                 then has_edge g i j \<and> has_edge g j i
                      \<and> get_weight g i j = real (1000 * j + i)
                      \<and> get_weight g j i = real (1000 * j + i)
                 else \<not> has_edge g i j \<and> \<not> has_edge g j i)))
        \<and> (check_all_inserted g n max_vertex_id \<longrightarrow>
             (\<forall>i j. 1 \<le> i \<and> i < j \<and> j < max_vertex_id \<longrightarrow>
                ((has_edge g i j \<and> has_edge g j i
                  \<and> get_weight g i j = real (1000 * j + i)
                  \<and> get_weight g j i = real (1000 * j + i)) \<longleftrightarrow> even (i + j)))))"
proof -
  have A: "set (generate_edge_stream 64) =
     {\<lparr>m_source = i, m_destination = j, m_weight = real (1000 * j + i)\<rparr> | i j.
        1 \<le> i \<and> i < j \<and> j < 64 \<and> even (j - i)}"
    by (rule generate_edge_stream_set)
  have B: "distinct (generate_edge_stream 64)"
    by (rule generate_edge_stream_distinct)
  have C: "\<forall>i j::nat. i < j \<longrightarrow> (even (j - i) \<longleftrightarrow> even (i + j))"
    by auto
  have D: "check_all_inserted g n max_vertex_id \<longleftrightarrow>
           num_edges g = n
           \<and> (\<forall>i j. 1 \<le> i \<and> i < j \<and> j < max_vertex_id \<longrightarrow>
                (if even (i + j)
                 then has_edge g i j \<and> has_edge g j i
                      \<and> get_weight g i j = real (1000 * j + i)
                      \<and> get_weight g j i = real (1000 * j + i)
                 else \<not> has_edge g i j \<and> \<not> has_edge g j i))"
    if small: "max_vertex_id \<le> 64"
  proof -
    have pair: "\<And>i j. 1 \<le> i \<and> i < j \<and> j < max_vertex_id \<Longrightarrow>
      assert_pair g i j \<longleftrightarrow>
       (if even (i + j)
        then has_edge g i j \<and> has_edge g j i
             \<and> get_weight g i j = real (1000 * j + i) \<and> get_weight g j i = real (1000 * j + i)
        else \<not> has_edge g i j \<and> \<not> has_edge g j i)"
      using small by (intro assert_pair_small) auto
    show ?thesis
      unfolding check_all_inserted_def check_outer_iff using pair by blast
  qed
  have E: "\<forall>i j. 1 \<le> i \<and> i < j \<and> j < max_vertex_id \<longrightarrow>
                ((has_edge g i j \<and> has_edge g j i
                  \<and> get_weight g i j = real (1000 * j + i)
                  \<and> get_weight g j i = real (1000 * j + i)) \<longleftrightarrow> even (i + j))"
    if small: "max_vertex_id \<le> 64" and pass: "check_all_inserted g n max_vertex_id"
  proof (intro allI impI)
    fix i j
    assume range: "1 \<le> i \<and> i < j \<and> j < max_vertex_id"
    have "if even (i + j)
          then has_edge g i j \<and> has_edge g j i
               \<and> get_weight g i j = real (1000 * j + i)
               \<and> get_weight g j i = real (1000 * j + i)
          else \<not> has_edge g i j \<and> \<not> has_edge g j i"
      using D [OF small] pass range by blast
    then show "(has_edge g i j \<and> has_edge g j i
                  \<and> get_weight g i j = real (1000 * j + i)
                  \<and> get_weight g j i = real (1000 * j + i)) \<longleftrightarrow> even (i + j)"
      by (cases "even (i + j)") auto
  qed
  show ?thesis
    using A B C D E by (intro conjI impI) assumption+
qed

theorem generate_edge_stream_64_and_insert_checks_witness:
  "(4::nat) \<le> 64
   \<and> check_all_inserted
       \<lparr>num_edges = 1, has_edge = (\<lambda>a b. (a = 1 \<and> b = 3) \<or> (a = 3 \<and> b = 1)),
        get_weight = (\<lambda>a b. 3001)\<rparr> 1 4
   \<and> has_edge \<lparr>num_edges = 1, has_edge = (\<lambda>a b. (a = 1 \<and> b = 3) \<or> (a = 3 \<and> b = 1)),
        get_weight = (\<lambda>a b. 3001)\<rparr> 1 3
   \<and> \<lparr>m_source = 1, m_destination = 3, m_weight = 3001\<rparr> \<in> set (generate_edge_stream 64)"
proof -
  let ?g = "\<lparr>num_edges = 1, has_edge = (\<lambda>a b. (a = 1 \<and> b = 3) \<or> (a = 3 \<and> b = 1)),
        get_weight = (\<lambda>a b. 3001)\<rparr>"
  note inst = generate_edge_stream_64_and_insert_checks [of 4 ?g 1]
  have small: "(4::nat) \<le> 64"
    by simp
  have pass: "check_all_inserted ?g 1 4"
    by (simp add: check_all_inserted_def assert_pair_def check_outer.simps check_inner.simps)
  have "\<forall>i j. 1 \<le> i \<and> i < j \<and> j < 4 \<longrightarrow>
          ((has_edge ?g i j \<and> has_edge ?g j i
            \<and> get_weight ?g i j = real (1000 * j + i)
            \<and> get_weight ?g j i = real (1000 * j + i)) \<longleftrightarrow> even (i + j))"
    using inst small pass by blast
  then have "(has_edge ?g 1 3 \<and> has_edge ?g 3 1
            \<and> get_weight ?g 1 3 = real (1000 * 3 + 1)
            \<and> get_weight ?g 3 1 = real (1000 * 3 + 1)) \<longleftrightarrow> even ((1::nat) + 3)"
    by (rule allE [of _ 1], elim allE [of _ 3]) simp
  then have present: "has_edge ?g 1 3"
    by simp
  have "\<lparr>m_source = 1, m_destination = 3, m_weight = 3001\<rparr>
      \<in> {\<lparr>m_source = i, m_destination = j, m_weight = real (1000 * j + i)\<rparr> | i j.
          1 \<le> i \<and> i < j \<and> j < 64 \<and> even (j - i)}"
    by (rule CollectI, rule exI [of _ 1], rule exI [of _ 3]) simp
  then have member: "\<lparr>m_source = 1, m_destination = 3, m_weight = 3001\<rparr>
      \<in> set (generate_edge_stream 64)"
    using inst by blast
  show ?thesis
    using small pass present member by (intro conjI)
qed

subsection \<open>The master: what each phase changes\<close>

lemma set_random_vertex_id_frame:
  "m_parameters (set_random_vertex_id m b) = m_parameters m
   \<and> m_reported_times_array (set_random_vertex_id m b) = m_reported_times_array m
   \<and> m_workers (set_random_vertex_id m b) = m_workers m
   \<and> m_last_time_reported (set_random_vertex_id m b) = m_last_time_reported m
   \<and> events (set_random_vertex_id m b) = events m
   \<and> cout (set_random_vertex_id m b) = cout m
   \<and> m_reported_times (m_results (set_random_vertex_id m b)) = m_reported_times (m_results m)
   \<and> m_num_vertices_load (m_results (set_random_vertex_id m b)) = m_num_vertices_load (m_results m)
   \<and> m_num_edges_load (m_results (set_random_vertex_id m b)) = m_num_edges_load (m_results m)"
  by (simp add: set_random_vertex_id_def Let_def)

lemma load_edges_loop_frame:
  "m_parameters (load_edges_loop m bs) = m_parameters m
   \<and> m_reported_times_array (load_edges_loop m bs) = m_reported_times_array m
   \<and> m_workers (load_edges_loop m bs) = m_workers m
   \<and> m_last_time_reported (load_edges_loop m bs) = m_last_time_reported m
   \<and> cout (load_edges_loop m bs) = cout m
   \<and> m_reported_times (m_results (load_edges_loop m bs)) = m_reported_times (m_results m)
   \<and> m_num_vertices_load (m_results (load_edges_loop m bs)) = m_num_vertices_load (m_results m)
   \<and> m_num_edges_load (m_results (load_edges_loop m bs)) = m_num_edges_load (m_results m)"
proof (induction bs arbitrary: m)
  case Nil
  show ?case by simp
next
  case (Cons b bs)
  show ?case
  proof (cases "length b > 0")
    case True
    then show ?thesis
      by (simp add: Let_def Cons.IH set_random_vertex_id_frame)
  next
    case False
    then show ?thesis by simp
  qed
qed

lemma apply_worker_writes_length:
  "apply_worker_writes ws arr = Inr arr' \<Longrightarrow> length arr' = length arr"
proof (induction ws arbitrary: arr)
  case Nil
  then show ?case by simp
next
  case (Cons w ws)
  obtain i t where w: "w = (i, t)" by (cases w)
  from Cons.prems have "i < length arr" and "apply_worker_writes ws (arr[i := t]) = Inr arr'"
    by (auto simp: w split: if_splits)
  then show ?case
    using Cons.IH [of "arr[i := t]"] by simp
qed

lemma apply_worker_writes_in_range:
  "list_all (\<lambda>w. fst w < length arr) ws \<Longrightarrow> \<exists>arr'. apply_worker_writes ws arr = Inr arr'"
proof (induction ws arbitrary: arr)
  case Nil
  show ?case by simp
next
  case (Cons w ws)
  obtain i t where w: "w = (i, t)" by (cases w)
  from Cons.prems have i: "i < length arr" and rest: "list_all (\<lambda>w. fst w < length (arr[i := t])) ws"
    by (simp_all add: w)
  show ?case
    using Cons.IH [OF rest] i by (simp add: w)
qed

lemma apply_worker_writes_untouched:
  "apply_worker_writes ws arr = Inr arr' \<Longrightarrow> i \<notin> fst ` set ws \<Longrightarrow> arr' ! i = arr ! i"
proof (induction ws arbitrary: arr)
  case Nil
  then show ?case by simp
next
  case (Cons w ws)
  obtain k t where w: "w = (k, t)" by (cases w)
  from Cons.prems have k: "k < length arr" and rest: "apply_worker_writes ws (arr[k := t]) = Inr arr'"
    by (auto simp: w split: if_splits)
  from Cons.prems(2) have ne: "i \<noteq> k" and later: "i \<notin> fst ` set ws"
    by (auto simp: w)
  have "arr' ! i = (arr[k := t]) ! i"
    using rest later by (rule Cons.IH)
  then show ?case
    using ne by simp
qed

lemma copy_reported_times_in_range:
  "sz \<le> length arr \<Longrightarrow> i \<le> sz \<Longrightarrow>
   copy_reported_times arr i sz vec = Inr (vec @ take (sz - i) (drop i arr))"
proof (induction arr i sz vec rule: copy_reported_times.induct)
  case (1 arr i sz vec)
  show ?case
  proof (cases "i < sz")
    case True
    then have inside: "i < length arr"
      using "1.prems" by simp
    have "copy_reported_times arr i sz vec = copy_reported_times arr (i + 1) sz (vec @ [arr ! i])"
      using True inside by (subst copy_reported_times.simps) simp
    also have "\<dots> = Inr ((vec @ [arr ! i]) @ take (sz - (i + 1)) (drop (i + 1) arr))"
      using True inside "1.prems" by (intro "1.IH") simp_all
    also have "(vec @ [arr ! i]) @ take (sz - (i + 1)) (drop (i + 1) arr)
        = vec @ take (sz - i) (drop i arr)"
    proof -
      have "drop i arr = arr ! i # drop (i + 1) arr"
        using inside by (simp add: Cons_nth_drop_Suc)
      moreover have "sz - i = Suc (sz - (i + 1))"
        using True by simp
      ultimately show ?thesis by simp
    qed
    finally show ?thesis .
  next
    case False
    then show ?thesis
      using "1.prems" by (subst copy_reported_times.simps) simp
  qed
qed

lemma copy_reported_times_returns:
  "copy_reported_times arr i sz vec = Inr v \<Longrightarrow> i \<le> length arr \<Longrightarrow> sz \<le> max i (length arr)"
proof (induction arr i sz vec rule: copy_reported_times.induct)
  case (1 arr i sz vec)
  show ?case
  proof (cases "i < sz")
    case True
    from "1.prems"(1) True have inside: "i < length arr"
      by (subst (asm) copy_reported_times.simps) (auto split: if_splits)
    from "1.prems"(1) True inside
    have "copy_reported_times arr (i + 1) sz (vec @ [arr ! i]) = Inr v"
      by (subst (asm) copy_reported_times.simps) simp
    then have "sz \<le> max (i + 1) (length arr)"
      using True inside by (intro "1.IH") simp_all
    then show ?thesis
      using inside by simp
  next
    case False
    then show ?thesis by simp
  qed
qed
lemma load_edges_frame:
  "m_parameters (load_edges m glog) = m_parameters m
   \<and> m_reported_times_array (load_edges m glog) = m_reported_times_array m
   \<and> m_workers (load_edges m glog) = m_workers m
   \<and> m_last_time_reported (load_edges m glog) = m_last_time_reported m
   \<and> cout (load_edges m glog) = cout m
   \<and> m_reported_times (m_results (load_edges m glog)) = m_reported_times (m_results m)
   \<and> m_num_vertices_load (m_results (load_edges m glog)) = m_num_vertices_load (m_results m)
   \<and> m_num_edges_load (m_results (load_edges m glog)) = m_num_edges_load (m_results m)"
  unfolding load_edges_def by (rule load_edges_loop_frame)

lemma do_run_experiment_Inr:
  assumes "apply_worker_writes (worker_writes env) (m_reported_times_array m) = Inr arr"
  shows "do_run_experiment m env =
     Inr (m\<lparr>m_results := (m_results m)\<lparr>m_completion_time := timer_microseconds env,
                                       m_num_build_invocations := build_invocations env\<rparr>,
            m_reported_times_array := arr,
            m_last_progress_reported := 0,
            m_last_time_reported := worker_last_time_reported env,
            events := events m @
              [BuildThread_new (int_of_uint64 (m_num_threads (m_parameters m)) + 1)
                 (m_build_frequency (m_parameters m)),
               Timer_start]
              @ map Worker_execute_updates (m_workers m)
              @ map Worker_wait (m_workers m)
              @ [BuildThread_stop, Lib_build, Timer_stop, Store_completion_time,
                 BuildThread_num_invocations, BuildThread_delete]\<rparr>)"
  using assms by (simp add: do_run_experiment_def Let_def)

lemma do_run_experiment_Inl:
  assumes "apply_worker_writes (worker_writes env) (m_reported_times_array m) = Inl e"
  shows "do_run_experiment m env = Inl e"
  using assms by (simp add: do_run_experiment_def Let_def)

lemma store_results_Inr:
  assumes "m_last_time_reported m \<le> length (m_reported_times_array m)"
  shows "store_results m env =
     Inr (m\<lparr>m_results := (m_results m)
               \<lparr>m_num_vertices_final_graph := sut_num_vertices env,
                m_num_edges_final_graph := sut_num_edges env,
                m_reported_times := m_reported_times (m_results m)
                   @ take (m_last_time_reported m) (m_reported_times_array m)\<rparr>,
            events := events m @ [Lib_num_vertices, Lib_num_edges]\<rparr>)"
  using assms by (simp add: store_results_def Let_def copy_reported_times_in_range)

lemma store_results_returns:
  assumes "store_results m env = Inr m'"
  shows "m_last_time_reported m \<le> length (m_reported_times_array m)"
proof -
  from assms obtain vec where
    "copy_reported_times (m_reported_times_array m) 0 (m_last_time_reported m)
       (m_reported_times (m_results m)) = Inr vec"
    by (auto simp: store_results_def Let_def split: sum.splits)
  then have "m_last_time_reported m \<le> max 0 (length (m_reported_times_array m))"
    by (rule copy_reported_times_returns) simp
  then show ?thesis by simp
qed

text \<open>
  What a run of \<open>execute\<close> that stays inside the array yields: the calls made, the line
  written, and the fields of the result.
\<close>

lemma execute_summary:
  assumes writes: "apply_worker_writes (worker_writes env) (m_reported_times_array m) = Inr arr"
    and last: "worker_last_time_reported env \<le> length arr"
  shows "\<exists>res m'. execute m glog env = Inr (res, m') \<and> res = m_results m'
     \<and> events m' = events (load_edges m glog) @
          [BuildThread_new (int_of_uint64 (m_num_threads (m_parameters m)) + 1)
             (m_build_frequency (m_parameters m)),
           Timer_start]
          @ map Worker_execute_updates (m_workers m)
          @ map Worker_wait (m_workers m)
          @ [BuildThread_stop, Lib_build, Timer_stop, Store_completion_time,
             BuildThread_num_invocations, BuildThread_delete]
          @ map Worker_remove_vertices (m_workers m)
          @ map Worker_wait (m_workers m) @ [Lib_build]
          @ [Lib_num_vertices, Lib_num_edges]
     \<and> cout m' = cout m
         @ [Str ''[Aging2] Number of stored vertices: '', Num (sut_num_vertices env),
            Str '' [match: '']
         @ (if m_num_vertices_load (m_results m) = sut_num_vertices env
            then [Str ''yes'']
            else [Str ''no, expected '', Num (m_num_vertices_load (m_results m))])
         @ [Str ''], number of stored edges: '', Num (sut_num_edges env), Str '' [match: '']
         @ (if m_num_edges_load (m_results m) = sut_num_edges env
            then [Str ''yes'']
            else [Str ''no, expected '', Num (m_num_edges_load (m_results m))])
         @ [Str '']'', Endl]
     \<and> m_num_vertices_final_graph res = sut_num_vertices env
     \<and> m_num_edges_final_graph res = sut_num_edges env
     \<and> m_num_vertices_load res = m_num_vertices_load (m_results m)
     \<and> m_num_edges_load res = m_num_edges_load (m_results m)
     \<and> m_reported_times res =
         m_reported_times (m_results m) @ take (worker_last_time_reported env) arr
     \<and> m_random_vertex_id res = m_random_vertex_id (m_results (load_edges m glog))
     \<and> m_reported_times_array m' = arr
     \<and> m_workers m' = m_workers m
     \<and> m_parameters m' = m_parameters m"
proof -
  let ?m1 = "load_edges m glog"
  have writes1: "apply_worker_writes (worker_writes env) (m_reported_times_array ?m1) = Inr arr"
    using writes by (simp add: load_edges_frame)
  obtain m2 where m2: "do_run_experiment ?m1 env = Inr m2"
    and m2_arr: "m_reported_times_array m2 = arr"
    and m2_last: "m_last_time_reported m2 = worker_last_time_reported env"
    and m2_workers: "m_workers m2 = m_workers m"
    and m2_par: "m_parameters m2 = m_parameters m"
    and m2_cout: "cout m2 = cout m"
    and m2_events: "events m2 = events ?m1 @
          [BuildThread_new (int_of_uint64 (m_num_threads (m_parameters m)) + 1)
             (m_build_frequency (m_parameters m)),
           Timer_start]
          @ map Worker_execute_updates (m_workers m)
          @ map Worker_wait (m_workers m)
          @ [BuildThread_stop, Lib_build, Timer_stop, Store_completion_time,
             BuildThread_num_invocations, BuildThread_delete]"
    and m2_vload: "m_num_vertices_load (m_results m2) = m_num_vertices_load (m_results m)"
    and m2_eload: "m_num_edges_load (m_results m2) = m_num_edges_load (m_results m)"
    and m2_times: "m_reported_times (m_results m2) = m_reported_times (m_results m)"
    and m2_rvid: "m_random_vertex_id (m_results m2) = m_random_vertex_id (m_results ?m1)"
    using do_run_experiment_Inr [OF writes1] by (simp add: load_edges_frame)
  let ?m3 = "remove_vertices m2 glog"
  have m3_last: "m_last_time_reported ?m3 \<le> length (m_reported_times_array ?m3)"
    using last by (simp add: remove_vertices_def m2_arr m2_last)
  obtain m4 where m4: "store_results ?m3 env = Inr m4"
    and m4_arr: "m_reported_times_array m4 = arr"
    and m4_workers: "m_workers m4 = m_workers m"
    and m4_par: "m_parameters m4 = m_parameters m"
    and m4_cout: "cout m4 = cout m"
    and m4_events: "events m4 = events ?m1 @
          [BuildThread_new (int_of_uint64 (m_num_threads (m_parameters m)) + 1)
             (m_build_frequency (m_parameters m)),
           Timer_start]
          @ map Worker_execute_updates (m_workers m)
          @ map Worker_wait (m_workers m)
          @ [BuildThread_stop, Lib_build, Timer_stop, Store_completion_time,
             BuildThread_num_invocations, BuildThread_delete]
          @ map Worker_remove_vertices (m_workers m)
          @ map Worker_wait (m_workers m) @ [Lib_build]
          @ [Lib_num_vertices, Lib_num_edges]"
    and m4_vload: "m_num_vertices_load (m_results m4) = m_num_vertices_load (m_results m)"
    and m4_eload: "m_num_edges_load (m_results m4) = m_num_edges_load (m_results m)"
    and m4_vfinal: "m_num_vertices_final_graph (m_results m4) = sut_num_vertices env"
    and m4_efinal: "m_num_edges_final_graph (m_results m4) = sut_num_edges env"
    and m4_times: "m_reported_times (m_results m4) =
        m_reported_times (m_results m) @ take (worker_last_time_reported env) arr"
    and m4_rvid: "m_random_vertex_id (m_results m4) = m_random_vertex_id (m_results ?m1)"
    using store_results_Inr [OF m3_last, of env]
    by (simp add: remove_vertices_def m2_arr m2_last m2_workers m2_par m2_cout m2_events
        m2_vload m2_eload m2_times m2_rvid)
  have run: "execute m glog env = Inr (m_results (log_num_vtx_edges m4), log_num_vtx_edges m4)"
    by (simp add: execute_def m2 m4)
  show ?thesis
    unfolding run
    by (simp add: log_num_vtx_edges_def m4_arr m4_workers m4_par m4_cout m4_events
        m4_vload m4_eload m4_vfinal m4_efinal m4_times m4_rvid)
qed

lemma execute_returns:
  assumes "execute m glog env = Inr (res, m')"
  shows "\<exists>arr. apply_worker_writes (worker_writes env) (m_reported_times_array m) = Inr arr
     \<and> worker_last_time_reported env \<le> length arr"
proof (cases "apply_worker_writes (worker_writes env) (m_reported_times_array m)")
  case (Inl e)
  then have "do_run_experiment (load_edges m glog) env = Inl e"
    by (intro do_run_experiment_Inl) (simp add: load_edges_frame)
  with assms show ?thesis
    by (simp add: execute_def)
next
  case (Inr arr)
  then have writes1: "apply_worker_writes (worker_writes env)
      (m_reported_times_array (load_edges m glog)) = Inr arr"
    by (simp add: load_edges_frame)
  note run = do_run_experiment_Inr [OF writes1]
  from assms obtain m2 m4 where m2: "do_run_experiment (load_edges m glog) env = Inr m2"
    and st: "store_results (remove_vertices m2 glog) env = Inr m4"
    by (auto simp: execute_def split: sum.splits)
  have "m_last_time_reported (remove_vertices m2 glog)
      \<le> length (m_reported_times_array (remove_vertices m2 glog))"
    using st by (rule store_results_returns)
  moreover have "m_last_time_reported (remove_vertices m2 glog) = worker_last_time_reported env"
    and "m_reported_times_array (remove_vertices m2 glog) = arr"
    using m2 run by (auto simp: remove_vertices_def)
  ultimately show ?thesis
    using Inr by simp
qed
lemma worker_writes_in_range:
  assumes "list_all (\<lambda>w. fst w < length (m_reported_times_array m)) (worker_writes env)"
    and "worker_last_time_reported env \<le> length (m_reported_times_array m)"
  shows "\<exists>arr. apply_worker_writes (worker_writes env) (m_reported_times_array m) = Inr arr
     \<and> length arr = length (m_reported_times_array m)
     \<and> worker_last_time_reported env \<le> length arr"
proof -
  obtain arr where arr: "apply_worker_writes (worker_writes env) (m_reported_times_array m) = Inr arr"
    using apply_worker_writes_in_range [OF assms(1)] by blast
  then have "length arr = length (m_reported_times_array m)"
    by (rule apply_worker_writes_length)
  with arr assms(2) show ?thesis by simp
qed

subsection \<open>The size of the array of reported times at some inputs\<close>

lemma bit_length_small: "bit_length 10 = 4" "bit_length 5 = 3" "bit_length 3 = 2"
  by (simp_all add: bit_length.simps)

lemma double_of_nat_small: "double_of_nat 10 = 10" "double_of_nat 5 = 5" "double_of_nat 3 = 3"
  by (simp_all add: double_of_nat_def bit_length_small)

lemma double_quotient_ceil_10_5: "double_quotient_ceil 10 5 = 2"
  by (simp add: double_quotient_ceil_def bit_length_small round_half_even_div_def Let_def)

lemma reported_times_size_10_5: "reported_times_size 10 5 = Some 3"
proof -
  have "unat (10 :: 64 word) = 10" and "unat (5 :: 64 word) = 5"
    by simp_all
  then show ?thesis
    unfolding reported_times_size_def
    by (simp add: double_of_nat_small double_quotient_ceil_10_5)
qed

text \<open>
  Where the rounding shows: \<open>2^60 + 1\<close> operations become the \<open>double\<close> \<open>2^60\<close>, so with
  \<open>2^60\<close> final edges the quotient is 1 and the array has 2 slots (the exact quotient has
  ceiling 2, which would give 3).
\<close>

lemma bit_length_2_60:
  "bit_length 1152921504606846976 = 61" "bit_length 1152921504606846977 = 61"
  by (simp_all add: bit_length.simps)

lemma double_of_nat_2_60:
  "double_of_nat 1152921504606846976 = 1152921504606846976"
  "double_of_nat 1152921504606846977 = 1152921504606846976"
  by (simp_all add: double_of_nat_def bit_length_2_60 round_half_even_div_def Let_def)

lemma double_quotient_ceil_equal:
  "double_quotient_ceil 1152921504606846976 1152921504606846976 = 1"
  by (simp add: double_quotient_ceil_def bit_length_2_60 round_half_even_div_def Let_def)

lemma reported_times_size_rounds:
  "(2 :: nat) ^ 60 = 1152921504606846976
   \<and> reported_times_size 1152921504606846977 1152921504606846976 = Some 2"
proof -
  have "unat (1152921504606846977 :: 64 word) = 1152921504606846977"
    and "unat (1152921504606846976 :: 64 word) = 1152921504606846976"
    by simp_all
  moreover have "(1152921504606846976 :: 64 word) \<noteq> 0"
    by simp
  moreover have "double_of_nat (Suc 1) = 2"
    by (simp add: double_of_nat_def bit_length.simps)
  ultimately have "reported_times_size 1152921504606846977 1152921504606846976 = Some 2"
    unfolding reported_times_size_def
    by (simp add: double_of_nat_2_60 double_quotient_ceil_equal Let_def)
  then show ?thesis
    by simp
qed

subsection \<open>The array of reported times\<close>

lemma Aging2Master_new_Inr:
  assumes "reported_times_size (edges_cardinality glog) (edges_final glog) = Some n"
  shows "Aging2Master_new parameters d glog =
     Inr \<lparr>m_parameters = parameters, m_is_directed = d,
          m_results = Aging2Result_new
            \<lparr>m_num_artificial_vertices := vertices_temporary_cardinality glog,
             m_num_vertices_load := vertices_final_cardinality glog,
             m_num_edges_load := edges_final glog,
             m_num_operations_total := edges_cardinality glog\<rparr>,
          m_reported_times_array = replicate n 0,
          m_workers = [0..<unat (m_num_threads parameters)],
          m_last_progress_reported = 0, m_last_time_reported = 0,
          events = [Lib_is_directed,
                    Lib_on_main_init (int_of_uint64 (m_num_threads parameters + 2))]
                   @ map Worker_new [0..<unat (m_num_threads parameters)]
                   @ [Lib_on_thread_init (int_of_uint64 (m_num_threads parameters))],
          cout = []\<rparr>"
  using assms
  by (simp add: Aging2Master_new_def init_workers_def Let_def)

lemma Aging2Master_new_returns:
  assumes "Aging2Master_new parameters d glog = Inr m"
  shows "\<exists>n. reported_times_size (edges_cardinality glog) (edges_final glog) = Some n"
proof (cases "reported_times_size (edges_cardinality glog) (edges_final glog)")
  case None
  then have "Aging2Master_new parameters d glog = Inl Undefined_array_size"
    by (simp add: Aging2Master_new_def Let_def)
  with assms show ?thesis by simp
next
  case (Some n)
  then show ?thesis by simp
qed

text \<open>The number of reports per operations plays no part in the construction of the array.\<close>

lemma Aging2Master_new_ignores_reports_per_operations:
  "map_sum id m_reported_times_array
     (Aging2Master_new (parameters\<lparr>m_num_reports_per_operations := k\<rparr>) d glog)
   = map_sum id m_reported_times_array (Aging2Master_new parameters d glog)"
  by (simp add: Aging2Master_new_def init_workers_def Let_def split: option.splits)

text \<open>
  C1. The array of reported times is meant to hold
  \<open>ceil(num_operations_total / num_edges_load) * num_reports_per_ops + 1\<close> entries, and
  the documentation of \<open>set_num_reports_per_ops\<close> says that a value of N gives N reports
  every \<open>num_edges\<close> operations. The constructor leaves the factor out. With 2 reports
  per operations, 10 operations and 5 final edges it allocates 3 slots where the stated size
  is 5; the run that the documentation describes saves 4 reports (after 0.5x, 1x, 1.5x and
  2x operations), and the fourth is written outside the array.
\<close>

theorem reported_times_array_too_small:
  "map_sum id (length \<circ> m_reported_times_array)
       (Aging2Master_new
          \<lparr>m_num_threads = 2, m_worker_granularity = 1024, m_build_frequency = 0,
           m_report_progress = False, m_num_reports_per_operations = 2,
           m_measure_latency = False\<rparr>
          False
          \<lparr>vertices_temporary_cardinality = 0, vertices_final_cardinality = 4,
           edges_final = 5, edges_cardinality = 10, edges_block_size = 6,
           edge_batches = [], temporary_vertices = []\<rparr>) = Inr 3
   \<and> spec_reported_times_size 10 5 2 = 5
   \<and> master_run
          \<lparr>m_num_threads = 2, m_worker_granularity = 1024, m_build_frequency = 0,
           m_report_progress = False, m_num_reports_per_operations = 2,
           m_measure_latency = False\<rparr>
          False
          \<lparr>vertices_temporary_cardinality = 0, vertices_final_cardinality = 4,
           edges_final = 5, edges_cardinality = 10, edges_block_size = 6,
           edge_batches = [], temporary_vertices = []\<rparr>
          \<lparr>worker_writes = [(0, 100), (1, 200), (2, 300), (3, 400)],
           worker_last_time_reported = 4,
           timer_microseconds = 400, build_invocations = 0,
           sut_num_vertices = 4, sut_num_edges = 5\<rparr>
       = Inl (Write_outside_reported_times 3)"
proof -
  let ?p = "\<lparr>m_num_threads = 2, m_worker_granularity = 1024, m_build_frequency = 0,
           m_report_progress = False, m_num_reports_per_operations = 2,
           m_measure_latency = False\<rparr>"
  let ?g = "\<lparr>vertices_temporary_cardinality = 0, vertices_final_cardinality = 4,
           edges_final = 5, edges_cardinality = 10, edges_block_size = 6,
           edge_batches = [], temporary_vertices = []\<rparr>"
  let ?env = "\<lparr>worker_writes = [(0, 100), (1, 200), (2, 300), (3, 400)],
           worker_last_time_reported = 4,
           timer_microseconds = 400, build_invocations = 0,
           sut_num_vertices = 4, sut_num_edges = 5\<rparr>"
  have size: "reported_times_size (edges_cardinality ?g) (edges_final ?g) = Some 3"
    by (simp add: reported_times_size_10_5)
  obtain m where new: "Aging2Master_new ?p False ?g = Inr m"
    and arr: "m_reported_times_array m = [0, 0, 0]"
    using Aging2Master_new_Inr [OF size, of ?p False] by (simp add: numeral_3_eq_3)
  have a: "map_sum id (length \<circ> m_reported_times_array) (Aging2Master_new ?p False ?g) = Inr 3"
    by (subst new) (simp add: arr)
  have b: "spec_reported_times_size 10 5 2 = 5"
    by (simp add: spec_reported_times_size_def)
  have "apply_worker_writes (worker_writes ?env) (m_reported_times_array (load_edges m ?g))
      = Inl (Write_outside_reported_times 3)"
    by (simp add: load_edges_frame arr)
  then have "do_run_experiment (load_edges m ?g) ?env = Inl (Write_outside_reported_times 3)"
    by (rule do_run_experiment_Inl)
  then have "execute m ?g ?env = Inl (Write_outside_reported_times 3)"
    by (simp add: execute_def)
  then have c: "master_run ?p False ?g ?env = Inl (Write_outside_reported_times 3)"
    unfolding master_run_def new sum.case by simp
  show ?thesis
    by (rule conjI [OF a conjI [OF b c]])
qed

subsection \<open>The final cardinalities\<close>

text \<open>
  C5. Whatever the library answers to \<open>num_vertices()\<close> and \<open>num_edges()\<close> at the end
  (equal to the loaded cardinalities or not), \<open>execute\<close> returns the result normally: the
  result holds the library's answers as final cardinalities next to the loaded ones, and
  the line written to standard output says, for the vertices and for the edges, \<open>yes\<close>
  when the two agree and \<open>no, expected\<close> followed by the loaded cardinality when they
  differ. (The run is one in which the workers stay inside the array of reported times; the
  source has no other outcome that is defined.)
\<close>

theorem execute_returns_result_on_cardinality_mismatch:
  assumes "list_all (\<lambda>w. fst w < length (m_reported_times_array m)) (worker_writes env)"
    and "worker_last_time_reported env \<le> length (m_reported_times_array m)"
  shows "\<exists>res m'. execute m glog env = Inr (res, m')
     \<and> m_num_vertices_final_graph res = sut_num_vertices env
     \<and> m_num_edges_final_graph res = sut_num_edges env
     \<and> m_num_vertices_load res = m_num_vertices_load (m_results m)
     \<and> m_num_edges_load res = m_num_edges_load (m_results m)
     \<and> cout m' = cout m
         @ [Str ''[Aging2] Number of stored vertices: '', Num (sut_num_vertices env),
            Str '' [match: '']
         @ (if m_num_vertices_load (m_results m) = sut_num_vertices env
            then [Str ''yes'']
            else [Str ''no, expected '', Num (m_num_vertices_load (m_results m))])
         @ [Str ''], number of stored edges: '', Num (sut_num_edges env), Str '' [match: '']
         @ (if m_num_edges_load (m_results m) = sut_num_edges env
            then [Str ''yes'']
            else [Str ''no, expected '', Num (m_num_edges_load (m_results m))])
         @ [Str '']'', Endl]"
proof -
  obtain arr where writes: "apply_worker_writes (worker_writes env) (m_reported_times_array m) = Inr arr"
    and last: "worker_last_time_reported env \<le> length arr"
    using worker_writes_in_range [OF assms] by blast
  show ?thesis
    using execute_summary [OF writes last, of glog] by blast
qed

theorem execute_returns_result_on_cardinality_mismatch_witness:
  "list_all (\<lambda>w. fst w < length [0, 0, 0 :: 64 word]) [(0, 17 :: 64 word)]
   \<and> (1::nat) \<le> length [0, 0, 0 :: 64 word]
   \<and> map_sum id (cout \<circ> snd)
       (execute
          \<lparr>m_parameters =
             \<lparr>m_num_threads = 2, m_worker_granularity = 1024, m_build_frequency = 0,
              m_report_progress = False, m_num_reports_per_operations = 1,
              m_measure_latency = False\<rparr>,
           m_is_directed = False,
           m_results = Aging2Result_new\<lparr>m_num_vertices_load := 4, m_num_edges_load := 5\<rparr>,
           m_reported_times_array = [0, 0, 0], m_workers = [0, 1],
           m_last_progress_reported = 0, m_last_time_reported = 0, events = [], cout = []\<rparr>
          \<lparr>vertices_temporary_cardinality = 0, vertices_final_cardinality = 4,
           edges_final = 5, edges_cardinality = 10, edges_block_size = 6,
           edge_batches = [], temporary_vertices = []\<rparr>
          \<lparr>worker_writes = [(0, 17)], worker_last_time_reported = 1,
           timer_microseconds = 100, build_invocations = 0,
           sut_num_vertices = 4, sut_num_edges = 4\<rparr>)
     = Inr [Str ''[Aging2] Number of stored vertices: '', Num 4, Str '' [match: '',
            Str ''yes'', Str ''], number of stored edges: '', Num 4, Str '' [match: '',
            Str ''no, expected '', Num 5, Str '']'', Endl]"
proof -
  let ?m = "\<lparr>m_parameters =
             \<lparr>m_num_threads = 2, m_worker_granularity = 1024, m_build_frequency = 0,
              m_report_progress = False, m_num_reports_per_operations = 1,
              m_measure_latency = False\<rparr>,
           m_is_directed = False,
           m_results = Aging2Result_new\<lparr>m_num_vertices_load := 4, m_num_edges_load := 5\<rparr>,
           m_reported_times_array = [0, 0, 0], m_workers = [0, 1],
           m_last_progress_reported = 0, m_last_time_reported = 0, events = [], cout = []\<rparr>"
  let ?g = "\<lparr>vertices_temporary_cardinality = 0, vertices_final_cardinality = 4,
           edges_final = 5, edges_cardinality = 10, edges_block_size = 6,
           edge_batches = [], temporary_vertices = []\<rparr>"
  let ?env = "\<lparr>worker_writes = [(0, 17)], worker_last_time_reported = 1,
           timer_microseconds = 100, build_invocations = 0,
           sut_num_vertices = 4, sut_num_edges = 4\<rparr>"
  have h1: "list_all (\<lambda>w. fst w < length (m_reported_times_array ?m)) (worker_writes ?env)"
    by simp
  have h2: "worker_last_time_reported ?env \<le> length (m_reported_times_array ?m)"
    by simp
  obtain res m' where run: "execute ?m ?g ?env = Inr (res, m')"
    and line: "cout m' = cout ?m
         @ [Str ''[Aging2] Number of stored vertices: '', Num (sut_num_vertices ?env),
            Str '' [match: '']
         @ (if m_num_vertices_load (m_results ?m) = sut_num_vertices ?env
            then [Str ''yes'']
            else [Str ''no, expected '', Num (m_num_vertices_load (m_results ?m))])
         @ [Str ''], number of stored edges: '', Num (sut_num_edges ?env), Str '' [match: '']
         @ (if m_num_edges_load (m_results ?m) = sut_num_edges ?env
            then [Str ''yes'']
            else [Str ''no, expected '', Num (m_num_edges_load (m_results ?m))])
         @ [Str '']'', Endl]"
    using execute_returns_result_on_cardinality_mismatch [OF h1 h2, of ?g] by blast
  have "map_sum id (cout \<circ> snd) (execute ?m ?g ?env) = Inr (cout m')"
    by (subst run) simp
  also have "cout m' = [Str ''[Aging2] Number of stored vertices: '', Num 4, Str '' [match: '',
            Str ''yes'', Str ''], number of stored edges: '', Num 4, Str '' [match: '',
            Str ''no, expected '', Num 5, Str '']'', Endl]"
    unfolding line by (simp add: Aging2Result_new_def)
  finally have main: "map_sum id (cout \<circ> snd) (execute ?m ?g ?env)
     = Inr [Str ''[Aging2] Number of stored vertices: '', Num 4, Str '' [match: '',
            Str ''yes'', Str ''], number of stored edges: '', Num 4, Str '' [match: '',
            Str ''no, expected '', Num 5, Str '']'', Endl]" .
  have a: "list_all (\<lambda>w. fst w < length [0, 0, 0 :: 64 word]) [(0, 17 :: 64 word)]"
    by simp
  have b: "(1::nat) \<le> length [0, 0, 0 :: 64 word]"
    by simp
  show ?thesis
    by (rule conjI [OF a conjI [OF b main]])
qed

text \<open>
  C9. For a master as constructed and a run in which the workers stay inside the array:
  \<open>execute\<close> returns, and the result's \<open>reported_times\<close> holds exactly
  \<open>m_last_time_reported\<close> entries, the first that many slots of the array in index order,
  whatever the array's length beyond that; an entry whose slot no worker wrote is zero, the
  value the array was initialised with.
\<close>

theorem store_results_copies_reported_prefix:
  assumes new: "Aging2Master_new parameters d glog = Inr m"
    and writes: "list_all (\<lambda>w. fst w < length (m_reported_times_array m)) (worker_writes env)"
    and last: "worker_last_time_reported env \<le> length (m_reported_times_array m)"
  shows "\<exists>res m'. execute m glog env = Inr (res, m')
     \<and> length (m_reported_times res) = worker_last_time_reported env
     \<and> m_reported_times res = take (worker_last_time_reported env) (m_reported_times_array m')
     \<and> (\<forall>i. i < worker_last_time_reported env \<longrightarrow>
          m_reported_times res ! i = m_reported_times_array m' ! i)
     \<and> (\<forall>i. i < worker_last_time_reported env \<and> i \<notin> fst ` set (worker_writes env) \<longrightarrow>
          m_reported_times res ! i = 0)"
proof -
  obtain n where size: "reported_times_size (edges_cardinality glog) (edges_final glog) = Some n"
    using Aging2Master_new_returns [OF new] by blast
  have fresh: "m_reported_times (m_results m) = []"
    and zero: "m_reported_times_array m = replicate (length (m_reported_times_array m)) 0"
    using new Aging2Master_new_Inr [OF size, of parameters d]
    by (auto simp: Aging2Result_new_def)
  obtain arr where w: "apply_worker_writes (worker_writes env) (m_reported_times_array m) = Inr arr"
    and len: "length arr = length (m_reported_times_array m)"
    and l: "worker_last_time_reported env \<le> length arr"
    using worker_writes_in_range [OF writes last] by blast
  obtain res m' where run: "execute m glog env = Inr (res, m')"
    and times: "m_reported_times res = take (worker_last_time_reported env) arr"
    and arr': "m_reported_times_array m' = arr"
    using execute_summary [OF w l, of glog] fresh by auto
  have count: "length (m_reported_times res) = worker_last_time_reported env"
    using times l by simp
  have same: "m_reported_times res ! i = arr ! i" if "i < worker_last_time_reported env" for i
    using that times by simp
  have unclaimed: "m_reported_times res ! i = 0"
    if "i < worker_last_time_reported env \<and> i \<notin> fst ` set (worker_writes env)" for i
  proof -
    have "arr ! i = m_reported_times_array m ! i"
      using w that by (intro apply_worker_writes_untouched) auto
    also have "\<dots> = replicate (length (m_reported_times_array m)) 0 ! i"
      using zero by simp
    also have "\<dots> = 0"
      using that l len by simp
    finally show ?thesis
      using same that by simp
  qed
  show ?thesis
    using run count times arr' same unclaimed by auto
qed

theorem store_results_copies_reported_prefix_witness:
  "map_sum id (m_reported_times \<circ> fst)
     (master_run
        \<lparr>m_num_threads = 2, m_worker_granularity = 1024, m_build_frequency = 0,
         m_report_progress = False, m_num_reports_per_operations = 1,
         m_measure_latency = False\<rparr>
        False
        \<lparr>vertices_temporary_cardinality = 0, vertices_final_cardinality = 4,
         edges_final = 5, edges_cardinality = 10, edges_block_size = 6,
         edge_batches = [], temporary_vertices = []\<rparr>
        \<lparr>worker_writes = [(1, 17)], worker_last_time_reported = 2,
         timer_microseconds = 100, build_invocations = 0,
         sut_num_vertices = 4, sut_num_edges = 5\<rparr>) = Inr [0, 17]"
proof -
  let ?p = "\<lparr>m_num_threads = 2, m_worker_granularity = 1024, m_build_frequency = 0,
         m_report_progress = False, m_num_reports_per_operations = 1,
         m_measure_latency = False\<rparr>"
  let ?g = "\<lparr>vertices_temporary_cardinality = 0, vertices_final_cardinality = 4,
         edges_final = 5, edges_cardinality = 10, edges_block_size = 6,
         edge_batches = [], temporary_vertices = []\<rparr>"
  let ?env = "\<lparr>worker_writes = [(1, 17)], worker_last_time_reported = 2,
         timer_microseconds = 100, build_invocations = 0,
         sut_num_vertices = 4, sut_num_edges = 5\<rparr>"
  have size: "reported_times_size (edges_cardinality ?g) (edges_final ?g) = Some 3"
    by (simp add: reported_times_size_10_5)
  obtain m where new: "Aging2Master_new ?p False ?g = Inr m"
    and arr: "m_reported_times_array m = [0, 0, 0]"
    using Aging2Master_new_Inr [OF size, of ?p False] by (simp add: numeral_3_eq_3)
  have h1: "list_all (\<lambda>w. fst w < length (m_reported_times_array m)) (worker_writes ?env)"
    by (simp add: arr)
  have h2: "worker_last_time_reported ?env \<le> length (m_reported_times_array m)"
    by (simp add: arr)
  obtain res m' where run: "execute m ?g ?env = Inr (res, m')"
    and count: "length (m_reported_times res) = worker_last_time_reported ?env"
    and prefix: "m_reported_times res = take (worker_last_time_reported ?env) (m_reported_times_array m')"
    and zero: "\<forall>i. i < worker_last_time_reported ?env \<and> i \<notin> fst ` set (worker_writes ?env) \<longrightarrow>
          m_reported_times res ! i = 0"
    using store_results_copies_reported_prefix [OF new h1 h2] by blast
  obtain arr' where w: "apply_worker_writes (worker_writes ?env) (m_reported_times_array m) = Inr arr'"
    and l: "worker_last_time_reported ?env \<le> length arr'"
    using worker_writes_in_range [OF h1 h2] by blast
  have "arr' = [0, 17, 0]"
    using w by (simp add: arr)
  moreover have "m_reported_times_array m' = arr'"
    using execute_summary [OF w l, of ?g] run by auto
  ultimately have "m_reported_times res = [0, 17]"
    using prefix by (simp add: numeral_2_eq_2)
  then show ?thesis
    unfolding master_run_def new sum.case run prod.case by simp
qed

subsection \<open>The random vertex id\<close>

lemma first_insertion_find:
  "i \<le> length b \<Longrightarrow>
   find (\<lambda>e. 0 < le_weight e) (drop i b) =
     (if first_insertion b i < length b then Some (b ! first_insertion b i) else None)"
proof (induction b i rule: first_insertion.induct)
  case (1 b i)
  show ?case
  proof (cases "i < length b")
    case True
    then have cons: "drop i b = b ! i # drop (i + 1) b"
      by (simp add: Cons_nth_drop_Suc)
    show ?thesis
    proof (cases "le_weight (b ! i) \<le> 0")
      case deletion: True
      have step: "first_insertion b i = first_insertion b (i + 1)"
        using True deletion by (subst first_insertion.simps) simp
      have "find (\<lambda>e. 0 < le_weight e) (drop i b) = find (\<lambda>e. 0 < le_weight e) (drop (i + 1) b)"
        using deletion by (simp add: cons)
      also have "\<dots> = (if first_insertion b (i + 1) < length b
                          then Some (b ! first_insertion b (i + 1)) else None)"
        using True deletion by (intro "1.IH") simp_all
      finally show ?thesis
        by (simp add: step)
    next
      case insertion: False
      have stop: "first_insertion b i = i"
        using insertion by (subst first_insertion.simps) simp
      show ?thesis
        using True insertion by (simp add: cons stop)
    qed
  next
    case False
    then have "first_insertion b i = i"
      by (subst first_insertion.simps) simp
    then show ?thesis
      using False "1.prems" by simp
  qed
qed

lemma set_random_vertex_id_result:
  "m_random_vertex_id (m_results (set_random_vertex_id m b)) =
     (case find (\<lambda>e. 0 < le_weight e) b of
        None \<Rightarrow> m_random_vertex_id (m_results m)
      | Some e \<Rightarrow> le_source e)"
  using first_insertion_find [of 0 b]
  by (simp add: set_random_vertex_id_def Let_def)

lemma load_edges_loop_keeps_nonzero:
  "m_random_vertex_id (m_results m) \<noteq> 0 \<Longrightarrow>
   m_random_vertex_id (m_results (load_edges_loop m bs)) = m_random_vertex_id (m_results m)"
proof (induction bs arbitrary: m)
  case Nil
  show ?case by simp
next
  case (Cons b bs)
  show ?case
  proof (cases "length b > 0")
    case True
    let ?m3 = "m\<lparr>events := events m @ map Worker_load_edges (m_workers m)
                  @ map Worker_wait (m_workers m)\<rparr>"
    have "load_edges_loop m (b # bs) = load_edges_loop ?m3 bs"
      using True Cons.prems by (simp add: Let_def)
    moreover have "m_random_vertex_id (m_results (load_edges_loop ?m3 bs))
        = m_random_vertex_id (m_results ?m3)"
      using Cons.prems by (intro Cons.IH) simp
    ultimately show ?thesis by simp
  next
    case False
    then show ?thesis by simp
  qed
qed

lemma find_append_cases:
  "find P (xs @ ys) = (case find P xs of None \<Rightarrow> find P ys | Some x \<Rightarrow> Some x)"
  by (induction xs) simp_all

lemma load_edges_loop_first_insertion:
  assumes "m_random_vertex_id (m_results m) = 0"
    and "find (\<lambda>e. 0 < le_weight e) (concat (takeWhile (\<lambda>b. b \<noteq> []) bs)) = Some e"
    and "le_source e \<noteq> 0"
  shows "m_random_vertex_id (m_results (load_edges_loop m bs)) = le_source e"
  using assms
proof (induction bs arbitrary: m)
  case Nil
  then show ?case by simp
next
  case (Cons b bs)
  have nonempty: "b \<noteq> []"
    using Cons.prems(2) by (cases "b = []") simp_all
  let ?m1 = "m\<lparr>events := events m @ map Worker_load_edges (m_workers m)\<rparr>"
  let ?m2 = "set_random_vertex_id ?m1 b"
  let ?m3 = "?m2\<lparr>events := events ?m2 @ map Worker_wait (m_workers ?m2)\<rparr>"
  have unfold: "load_edges_loop m (b # bs) = load_edges_loop ?m3 bs"
    using nonempty Cons.prems(1) by (simp add: Let_def)
  have stream: "(case find (\<lambda>e. 0 < le_weight e) b of
        None \<Rightarrow> find (\<lambda>e. 0 < le_weight e) (concat (takeWhile (\<lambda>b. b \<noteq> []) bs))
      | Some x \<Rightarrow> Some x) = Some e"
    using Cons.prems(2) nonempty by (simp add: find_append_cases)
  have rvid3: "m_random_vertex_id (m_results ?m3) =
      (case find (\<lambda>e. 0 < le_weight e) b of None \<Rightarrow> 0 | Some e \<Rightarrow> le_source e)"
    using Cons.prems(1) by (simp add: set_random_vertex_id_result split: option.splits)
  show ?case
  proof (cases "find (\<lambda>e. 0 < le_weight e) b")
    case None
    then have "m_random_vertex_id (m_results ?m3) = 0"
      using rvid3 by simp
    moreover have "find (\<lambda>e. 0 < le_weight e) (concat (takeWhile (\<lambda>b. b \<noteq> []) bs)) = Some e"
      using stream None by simp
    ultimately have "m_random_vertex_id (m_results (load_edges_loop ?m3 bs)) = le_source e"
      using Cons.prems(3) by (rule Cons.IH)
    then show ?thesis
      by (simp only: unfold)
  next
    case (Some e')
    then have "e' = e"
      using stream by simp
    then have set: "m_random_vertex_id (m_results ?m3) = le_source e"
      using rvid3 Some by simp
    then have "m_random_vertex_id (m_results (load_edges_loop ?m3 bs)) = le_source e"
      using Cons.prems(3) load_edges_loop_keeps_nonzero [of ?m3 bs] by simp
    then show ?thesis
      by (simp only: unfold)
  qed
qed

text \<open>
  C2 (as amended). The batches that are loaded are those before the first empty one; their
  concatenation is the edge stream. Starting from a random vertex id of zero, when the
  stream contains an insertion (weight above zero) and the source of the first one is not
  zero, the random vertex id after the load phase is the source vertex of that first
  insertion of the stream, and it is not zero. That insertion lies in the first batch when
  the first batch contains an insertion at all (then it is the first insertion of the first
  batch), and in a later batch otherwise.
\<close>

theorem random_vertex_id_first_insertion:
  assumes "m_random_vertex_id (m_results m) = 0"
    and "find (\<lambda>e. 0 < le_weight e) (concat (takeWhile (\<lambda>b. b \<noteq> []) (edge_batches glog))) = Some e"
    and "le_source e \<noteq> 0"
  shows "m_random_vertex_id (m_results (load_edges m glog)) = le_source e
     \<and> m_random_vertex_id (m_results (load_edges m glog)) \<noteq> 0
     \<and> (\<forall>b rest. edge_batches glog = b # rest \<and> list_ex (\<lambda>e. 0 < le_weight e) b \<longrightarrow>
          find (\<lambda>e. 0 < le_weight e) b = Some e)"
proof -
  have rvid: "m_random_vertex_id (m_results (load_edges m glog)) = le_source e"
    unfolding load_edges_def using assms by (rule load_edges_loop_first_insertion)
  have first: "find (\<lambda>e. 0 < le_weight e) b = Some e"
    if "edge_batches glog = b # rest \<and> list_ex (\<lambda>e. 0 < le_weight e) b" for b rest
  proof -
    from that have batches: "edge_batches glog = b # rest"
      and ex: "list_ex (\<lambda>e. 0 < le_weight e) b"
      by simp_all
    from ex have nonempty: "b \<noteq> []"
      by auto
    from ex obtain e' where e': "find (\<lambda>e. 0 < le_weight e) b = Some e'"
      by (cases "find (\<lambda>e. 0 < le_weight e) b") (auto simp: find_None_iff list_ex_iff)
    have "find (\<lambda>e. 0 < le_weight e)
        (concat (takeWhile (\<lambda>b. b \<noteq> []) (edge_batches glog))) = Some e'"
      using nonempty e' by (simp add: batches find_append_cases)
    with assms(2) show ?thesis
      using e' by simp
  qed
  show ?thesis
    using rvid assms(3) first by auto
qed

theorem random_vertex_id_first_insertion_witness:
  "m_random_vertex_id
     (m_results (load_edges
        \<lparr>m_parameters =
           \<lparr>m_num_threads = 2, m_worker_granularity = 1024, m_build_frequency = 0,
            m_report_progress = False, m_num_reports_per_operations = 1,
            m_measure_latency = False\<rparr>,
         m_is_directed = False, m_results = Aging2Result_new,
         m_reported_times_array = [0, 0, 0], m_workers = [0, 1],
         m_last_progress_reported = 0, m_last_time_reported = 0, events = [], cout = []\<rparr>
        \<lparr>vertices_temporary_cardinality = 0, vertices_final_cardinality = 4,
         edges_final = 5, edges_cardinality = 10, edges_block_size = 6,
         edge_batches =
           [[\<lparr>le_source = 7, le_destination = 8, le_weight = -1\<rparr>,
             \<lparr>le_source = 5, le_destination = 6, le_weight = 2\<rparr>],
            [\<lparr>le_source = 3, le_destination = 4, le_weight = 1\<rparr>]],
         temporary_vertices = []\<rparr>)) = 5"
proof -
  let ?m = "\<lparr>m_parameters =
           \<lparr>m_num_threads = 2, m_worker_granularity = 1024, m_build_frequency = 0,
            m_report_progress = False, m_num_reports_per_operations = 1,
            m_measure_latency = False\<rparr>,
         m_is_directed = False, m_results = Aging2Result_new,
         m_reported_times_array = [0, 0, 0], m_workers = [0, 1],
         m_last_progress_reported = 0, m_last_time_reported = 0, events = [], cout = []\<rparr>"
  let ?g = "\<lparr>vertices_temporary_cardinality = 0, vertices_final_cardinality = 4,
         edges_final = 5, edges_cardinality = 10, edges_block_size = 6,
         edge_batches =
           [[\<lparr>le_source = 7, le_destination = 8, le_weight = -1\<rparr>,
             \<lparr>le_source = 5, le_destination = 6, le_weight = 2\<rparr>],
            [\<lparr>le_source = 3, le_destination = 4, le_weight = 1\<rparr>]],
         temporary_vertices = []\<rparr>"
  let ?e = "\<lparr>le_source = 5, le_destination = 6, le_weight = 2\<rparr>"
  have h1: "m_random_vertex_id (m_results ?m) = 0"
    by (simp add: Aging2Result_new_def)
  have h2: "find (\<lambda>e. 0 < le_weight e) (concat (takeWhile (\<lambda>b. b \<noteq> []) (edge_batches ?g))) = Some ?e"
    by simp
  have h3: "le_source ?e \<noteq> 0"
    by simp
  have "m_random_vertex_id (m_results (load_edges ?m ?g)) = le_source ?e"
    using random_vertex_id_first_insertion [OF h1 h2 h3] by (rule conjunct1)
  then show ?thesis
    by simp
qed

text \<open>
  The claim as stated fails: here the stream contains an insertion, the first batch
  contains none, and the random vertex id is 3, the source of the insertion of the second
  batch and not a vertex of the first batch.
\<close>

theorem random_vertex_id_first_batch_counterexample:
  "list_ex (\<lambda>e. 0 < le_weight e)
     (concat [[\<lparr>le_source = 1, le_destination = 2, le_weight = -1\<rparr>],
              [\<lparr>le_source = 3, le_destination = 4, le_weight = 1\<rparr>]])
   \<and> find (\<lambda>e. 0 < le_weight e) [\<lparr>le_source = 1, le_destination = 2, le_weight = -1\<rparr>] = None
   \<and> m_random_vertex_id
     (m_results (load_edges
        \<lparr>m_parameters =
           \<lparr>m_num_threads = 2, m_worker_granularity = 1024, m_build_frequency = 0,
            m_report_progress = False, m_num_reports_per_operations = 1,
            m_measure_latency = False\<rparr>,
         m_is_directed = False, m_results = Aging2Result_new,
         m_reported_times_array = [0, 0, 0], m_workers = [0, 1],
         m_last_progress_reported = 0, m_last_time_reported = 0, events = [], cout = []\<rparr>
        \<lparr>vertices_temporary_cardinality = 0, vertices_final_cardinality = 4,
         edges_final = 5, edges_cardinality = 10, edges_block_size = 6,
         edge_batches =
           [[\<lparr>le_source = 1, le_destination = 2, le_weight = -1\<rparr>],
            [\<lparr>le_source = 3, le_destination = 4, le_weight = 1\<rparr>]],
         temporary_vertices = []\<rparr>)) = 3"
  by (simp add: load_edges_def set_random_vertex_id_def first_insertion.simps Let_def
      Aging2Result_new_def)

subsection \<open>The order of the master's calls\<close>

lemma all_before_append:
  "all_before P Q (xs @ ys) \<longleftrightarrow>
     all_before P Q xs \<and> all_before P Q ys \<and> (list_ex Q xs \<longrightarrow> \<not> list_ex P ys)"
  by (induction xs) (auto simp: list_ex_iff)

lemma all_before_no_Q: "\<not> list_ex Q xs \<Longrightarrow> all_before P Q xs"
  by (induction xs) (auto simp: list_ex_iff)

lemma all_before_no_P: "\<not> list_ex P xs \<Longrightarrow> all_before P Q xs"
  by (induction xs) (auto simp: list_ex_iff)

lemma all_before_trivial:
  "(\<forall>x \<in> set xs. \<not> P x) \<or> (\<forall>x \<in> set xs. \<not> Q x) \<Longrightarrow> all_before P Q xs"
  using all_before_no_P [of P xs Q] all_before_no_Q [of Q xs P] by (auto simp: list_ex_iff)

lemma list_ex_map: "list_ex P (map f xs) = list_ex (\<lambda>x. P (f x)) xs"
  by (simp add: list_ex_iff)

lemma list_ex_False: "list_ex (\<lambda>x. False) xs = False"
  by (simp add: list_ex_iff)

lemma all_before_positions:
  "all_before P Q xs \<longleftrightarrow>
     (\<forall>i j. i < length xs \<and> j < length xs \<and> P (xs ! i) \<and> Q (xs ! j) \<longrightarrow> i < j)"
proof (induction xs)
  case Nil
  show ?case by simp
next
  case (Cons x xs)
  show ?case
  proof
    assume ab: "all_before P Q (x # xs)"
    show "\<forall>i j. i < length (x # xs) \<and> j < length (x # xs) \<and> P ((x # xs) ! i) \<and> Q ((x # xs) ! j)
        \<longrightarrow> i < j"
    proof (intro allI impI)
      fix i j
      assume h: "i < length (x # xs) \<and> j < length (x # xs) \<and> P ((x # xs) ! i) \<and> Q ((x # xs) ! j)"
      show "i < j"
      proof (cases j)
        case 0
        with h have "Q x" by simp
        with ab have nP: "\<not> P x" and none: "\<not> list_ex P xs" by simp_all
        show ?thesis
        proof (cases i)
          case 0
          with h nP show ?thesis by simp
        next
          case (Suc i')
          with h have "i' < length xs" and "P (xs ! i')" by simp_all
          then have "list_ex P xs" by (auto simp: list_ex_iff)
          with none show ?thesis by simp
        qed
      next
        case (Suc j')
        show ?thesis
        proof (cases i)
          case 0
          with Suc show ?thesis by simp
        next
          case i: (Suc i')
          from ab have "all_before P Q xs" by simp
          then have "i' < j'"
            using Cons.IH h Suc i by simp
          then show ?thesis
            using Suc i by simp
        qed
      qed
    qed
  next
    assume pos: "\<forall>i j. i < length (x # xs) \<and> j < length (x # xs)
        \<and> P ((x # xs) ! i) \<and> Q ((x # xs) ! j) \<longrightarrow> i < j"
    have tail: "all_before P Q xs"
    proof -
      have "\<forall>i j. i < length xs \<and> j < length xs \<and> P (xs ! i) \<and> Q (xs ! j) \<longrightarrow> i < j"
      proof (intro allI impI)
        fix i j
        assume "i < length xs \<and> j < length xs \<and> P (xs ! i) \<and> Q (xs ! j)"
        then have "Suc i < Suc j"
          using pos [rule_format, of "Suc i" "Suc j"] by simp
        then show "i < j" by simp
      qed
      then show ?thesis
        using Cons.IH by simp
    qed
    have head: "\<not> P x \<and> \<not> list_ex P xs" if "Q x"
    proof
      show "\<not> P x"
        using pos [rule_format, of 0 0] that by auto
      show "\<not> list_ex P xs"
      proof
        assume "list_ex P xs"
        then obtain i where "i < length xs" and "P (xs ! i)"
          by (auto simp: list_ex_iff in_set_conv_nth)
        then have "Suc i < 0"
          using pos [rule_format, of "Suc i" 0] that by simp
        then show False by simp
      qed
    qed
    show "all_before P Q (x # xs)"
      using tail head by simp
  qed
qed

lemma load_edges_loop_events:
  "\<exists>es. events (load_edges_loop m bs) = events m @ es
     \<and> (\<forall>e \<in> set es. (\<exists>w. e = Worker_load_edges w) \<or> (\<exists>w. e = Worker_wait w))"
proof (induction bs arbitrary: m)
  case Nil
  show ?case by simp
next
  case (Cons b bs)
  show ?case
  proof (cases "length b > 0")
    case True
    let ?m1 = "m\<lparr>events := events m @ map Worker_load_edges (m_workers m)\<rparr>"
    let ?m2 = "if m_random_vertex_id (m_results ?m1) = 0 then set_random_vertex_id ?m1 b else ?m1"
    let ?m3 = "?m2\<lparr>events := events ?m2 @ map Worker_wait (m_workers ?m2)\<rparr>"
    have unfold: "load_edges_loop m (b # bs) = load_edges_loop ?m3 bs"
      using True by (simp add: Let_def)
    have ev3: "events ?m3 = events m @ map Worker_load_edges (m_workers m)
        @ map Worker_wait (m_workers m)"
      by (simp add: set_random_vertex_id_frame)
    obtain es where es: "events (load_edges_loop ?m3 bs) = events ?m3 @ es"
      and only: "\<forall>e \<in> set es. (\<exists>w. e = Worker_load_edges w) \<or> (\<exists>w. e = Worker_wait w)"
      using Cons.IH [of ?m3] by blast
    have "events (load_edges_loop m (b # bs)) =
        events m @ (map Worker_load_edges (m_workers m) @ map Worker_wait (m_workers m) @ es)"
      unfolding unfold es ev3 by simp
    moreover have "\<forall>e \<in> set (map Worker_load_edges (m_workers m)
        @ map Worker_wait (m_workers m) @ es).
        (\<exists>w. e = Worker_load_edges w) \<or> (\<exists>w. e = Worker_wait w)"
      using only by auto
    ultimately show ?thesis by blast
  next
    case False
    then show ?thesis by simp
  qed
qed

text \<open>
  The calls of one run of \<open>execute\<close>: those of the load phase (hand-overs of batches and
  waits only), then those of the experiment, of the removal of the temporary vertices and
  of \<open>store_results\<close>.
\<close>

lemma execute_trace:
  assumes "list_all (\<lambda>w. fst w < length (m_reported_times_array m)) (worker_writes env)"
    and "worker_last_time_reported env \<le> length (m_reported_times_array m)"
  shows "\<exists>res m' es. execute m glog env = Inr (res, m')
     \<and> (\<forall>e \<in> set es. (\<exists>w. e = Worker_load_edges w) \<or> (\<exists>w. e = Worker_wait w))
     \<and> m_parameters m' = m_parameters m \<and> m_workers m' = m_workers m
     \<and> events m' = events m @ es @
          [BuildThread_new (int_of_uint64 (m_num_threads (m_parameters m)) + 1)
             (m_build_frequency (m_parameters m)),
           Timer_start]
          @ map Worker_execute_updates (m_workers m)
          @ map Worker_wait (m_workers m)
          @ [BuildThread_stop, Lib_build, Timer_stop, Store_completion_time,
             BuildThread_num_invocations, BuildThread_delete]
          @ map Worker_remove_vertices (m_workers m)
          @ map Worker_wait (m_workers m) @ [Lib_build]
          @ [Lib_num_vertices, Lib_num_edges]"
proof -
  obtain arr where writes: "apply_worker_writes (worker_writes env) (m_reported_times_array m) = Inr arr"
    and last: "worker_last_time_reported env \<le> length arr"
    using worker_writes_in_range [OF assms] by blast
  obtain es where es: "events (load_edges m glog) = events m @ es"
    and only: "\<forall>e \<in> set es. (\<exists>w. e = Worker_load_edges w) \<or> (\<exists>w. e = Worker_wait w)"
    using load_edges_loop_events [of m "edge_batches glog"] unfolding load_edges_def by blast
  show ?thesis
    using execute_summary [OF writes last, of glog] only unfolding es by auto
qed

lemma subseq_singleton_map: "w \<in> set ws \<Longrightarrow> subseq [f w] (map f ws)"
  by (induction ws) auto

text \<open>
  C3. In the calls of one run of \<open>execute\<close>: the build service is constructed (started)
  exactly once, before any worker is told to execute its updates; it is stopped exactly
  once, after every worker has been told to execute and has then been waited on; between
  the stop and the stop of the timer the master makes exactly one call, \<open>build()\<close>, and
  the completion time is stored after that; every worker is told to remove vertices, and
  only after the completion time has been stored.
\<close>

theorem build_service_brackets_the_updates:
  assumes "list_all (\<lambda>w. fst w < length (m_reported_times_array m)) (worker_writes env)"
    and "worker_last_time_reported env \<le> length (m_reported_times_array m)"
  shows "\<exists>res m'. execute m glog env = Inr (res, m')
     \<and> length (filter is_BuildThread_new (drop (length (events m)) (events m'))) = 1
     \<and> all_before is_BuildThread_new is_Worker_execute_updates
          (drop (length (events m)) (events m'))
     \<and> (\<forall>w \<in> set (m_workers m).
          subseq [Worker_execute_updates w, Worker_wait w, BuildThread_stop]
            (drop (length (events m)) (events m')))
     \<and> all_before is_Worker_execute_updates (\<lambda>e. e = BuildThread_stop)
          (drop (length (events m)) (events m'))
     \<and> length (filter (\<lambda>e. e = BuildThread_stop) (drop (length (events m)) (events m'))) = 1
     \<and> takeWhile (\<lambda>e. e \<noteq> Timer_stop)
          (dropWhile (\<lambda>e. e \<noteq> BuildThread_stop) (drop (length (events m)) (events m')))
        = [BuildThread_stop, Lib_build]
     \<and> subseq [BuildThread_stop, Lib_build, Timer_stop, Store_completion_time]
          (drop (length (events m)) (events m'))
     \<and> all_before (\<lambda>e. e = Store_completion_time) is_Worker_remove_vertices
          (drop (length (events m)) (events m'))
     \<and> (\<forall>w \<in> set (m_workers m).
          Worker_remove_vertices w \<in> set (drop (length (events m)) (events m')))"
proof -
  let ?ws = "m_workers m"
  let ?new = "BuildThread_new (int_of_uint64 (m_num_threads (m_parameters m)) + 1)
             (m_build_frequency (m_parameters m))"
  let ?tail = "[BuildThread_stop, Lib_build, Timer_stop, Store_completion_time,
             BuildThread_num_invocations, BuildThread_delete]
          @ map Worker_remove_vertices ?ws
          @ map Worker_wait ?ws @ [Lib_build]
          @ [Lib_num_vertices, Lib_num_edges]"
  obtain res m' es where run: "execute m glog env = Inr (res, m')"
    and only: "\<forall>e \<in> set es. (\<exists>w. e = Worker_load_edges w) \<or> (\<exists>w. e = Worker_wait w)"
    and ev: "events m' = events m @ es @
          [BuildThread_new (int_of_uint64 (m_num_threads (m_parameters m)) + 1)
             (m_build_frequency (m_parameters m)),
           Timer_start]
          @ map Worker_execute_updates (m_workers m)
          @ map Worker_wait (m_workers m)
          @ [BuildThread_stop, Lib_build, Timer_stop, Store_completion_time,
             BuildThread_num_invocations, BuildThread_delete]
          @ map Worker_remove_vertices (m_workers m)
          @ map Worker_wait (m_workers m) @ [Lib_build]
          @ [Lib_num_vertices, Lib_num_edges]"
    using execute_trace [OF assms, of glog] by blast
  define tr where "tr = drop (length (events m)) (events m')"
  define head where "head = es @ [?new, Timer_start]
          @ map Worker_execute_updates ?ws @ map Worker_wait ?ws"
  have tr: "tr = es @ [?new, Timer_start]
          @ map Worker_execute_updates ?ws @ map Worker_wait ?ws @ ?tail"
    unfolding tr_def ev by simp
  have tr_head: "tr = head @ ?tail"
    unfolding tr head_def by simp
  have load_call: "\<not> is_BuildThread_new e \<and> \<not> is_Worker_execute_updates e
      \<and> \<not> is_Worker_remove_vertices e \<and> e \<noteq> BuildThread_stop
      \<and> e \<noteq> Store_completion_time" if "e \<in> set es" for e
  proof -
    from only that consider w where "e = Worker_load_edges w" | w where "e = Worker_wait w"
      by blast
    then show ?thesis
      by cases simp_all
  qed
  have es_new: "\<not> list_ex is_BuildThread_new es"
    and es_exec: "\<not> list_ex is_Worker_execute_updates es"
    and es_remove: "\<not> list_ex is_Worker_remove_vertices es"
    and es_stop: "BuildThread_stop \<notin> set es"
    and es_store: "Store_completion_time \<notin> set es"
    using load_call by (auto simp: list_ex_iff)
  have es_is_stop: "\<not> list_ex (\<lambda>e. e = BuildThread_stop) es"
    and es_is_store: "\<not> list_ex (\<lambda>e. e = Store_completion_time) es"
    using es_stop es_store by (auto simp: list_ex_iff)
  note trivial = all_before_append all_before_no_P all_before_no_Q list_ex_map list_ex_False
  have head_stop: "BuildThread_stop \<notin> set head"
    using es_stop unfolding head_def by auto
  have c1: "length (filter is_BuildThread_new tr) = 1"
  proof -
    have "filter is_BuildThread_new es = []"
      using es_new by (simp add: list_ex_iff filter_empty_conv)
    then show ?thesis
      unfolding tr by (simp add: filter_empty_conv)
  qed
  have c2: "all_before is_BuildThread_new is_Worker_execute_updates tr"
    unfolding tr by (simp add: trivial es_new es_exec)
  have c3: "\<forall>w \<in> set ?ws. subseq [Worker_execute_updates w, Worker_wait w, BuildThread_stop] tr"
  proof
    fix w
    assume w: "w \<in> set ?ws"
    have a: "subseq [Worker_execute_updates w] (map Worker_execute_updates ?ws)"
      using w by (rule subseq_singleton_map)
    have b: "subseq [Worker_wait w] (map Worker_wait ?ws)"
      using w by (rule subseq_singleton_map)
    have c: "subseq [BuildThread_stop] ?tail"
      by simp
    have "subseq ([Worker_execute_updates w] @ [Worker_wait w] @ [BuildThread_stop])
        (map Worker_execute_updates ?ws @ map Worker_wait ?ws @ ?tail)"
      by (intro list_emb_append_mono a b c)
    then have "subseq ([Worker_execute_updates w] @ [Worker_wait w] @ [BuildThread_stop])
        ((es @ [?new, Timer_start]) @ map Worker_execute_updates ?ws @ map Worker_wait ?ws @ ?tail)"
      by (rule list_emb_append2)
    then show "subseq [Worker_execute_updates w, Worker_wait w, BuildThread_stop] tr"
      unfolding tr by simp
  qed
  have c4: "all_before is_Worker_execute_updates (\<lambda>e. e = BuildThread_stop) tr"
    unfolding tr by (simp add: trivial es_exec es_is_stop)
  have c5: "length (filter (\<lambda>e. e = BuildThread_stop) tr) = 1"
  proof -
    have "filter (\<lambda>e. e = BuildThread_stop) es = []"
      using es_stop by (auto simp: filter_empty_conv)
    then show ?thesis
      unfolding tr by (simp add: filter_empty_conv)
  qed
  have c6: "takeWhile (\<lambda>e. e \<noteq> Timer_stop) (dropWhile (\<lambda>e. e \<noteq> BuildThread_stop) tr)
      = [BuildThread_stop, Lib_build]"
  proof -
    have "dropWhile (\<lambda>e. e \<noteq> BuildThread_stop) tr = dropWhile (\<lambda>e. e \<noteq> BuildThread_stop) ?tail"
      unfolding tr_head using head_stop by (intro dropWhile_append2) auto
    then show ?thesis
      by simp
  qed
  have c7: "subseq [BuildThread_stop, Lib_build, Timer_stop, Store_completion_time] tr"
  proof -
    have "subseq [BuildThread_stop, Lib_build, Timer_stop, Store_completion_time] ?tail"
      by simp
    then show ?thesis
      unfolding tr_head by (rule list_emb_append2)
  qed
  have c8: "all_before (\<lambda>e. e = Store_completion_time) is_Worker_remove_vertices tr"
    unfolding tr by (simp add: trivial es_remove es_is_store)
  have c9: "\<forall>w \<in> set ?ws. Worker_remove_vertices w \<in> set tr"
    unfolding tr by simp
  show ?thesis
    using run c1 c2 c3 c4 c5 c6 c7 c8 c9 unfolding tr_def
    by (intro exI conjI) assumption+
qed

theorem build_service_brackets_the_updates_witness:
  "list_all (\<lambda>w. fst w < length [0, 0, 0 :: 64 word]) [(0, 17 :: 64 word)]
   \<and> (1::nat) \<le> length [0, 0, 0 :: 64 word]
   \<and> map_sum id
        (\<lambda>r. takeWhile (\<lambda>e. e \<noteq> Timer_stop)
               (dropWhile (\<lambda>e. e \<noteq> BuildThread_stop) (events (snd r))))
       (execute
          \<lparr>m_parameters =
             \<lparr>m_num_threads = 2, m_worker_granularity = 1024, m_build_frequency = 10,
              m_report_progress = False, m_num_reports_per_operations = 1,
              m_measure_latency = False\<rparr>,
           m_is_directed = False,
           m_results = Aging2Result_new\<lparr>m_num_vertices_load := 4, m_num_edges_load := 5\<rparr>,
           m_reported_times_array = [0, 0, 0], m_workers = [0, 1],
           m_last_progress_reported = 0, m_last_time_reported = 0, events = [], cout = []\<rparr>
          \<lparr>vertices_temporary_cardinality = 0, vertices_final_cardinality = 4,
           edges_final = 5, edges_cardinality = 10, edges_block_size = 6,
           edge_batches = [[\<lparr>le_source = 3, le_destination = 4, le_weight = 1\<rparr>]],
           temporary_vertices = []\<rparr>
          \<lparr>worker_writes = [(0, 17)], worker_last_time_reported = 1,
           timer_microseconds = 100, build_invocations = 0,
           sut_num_vertices = 4, sut_num_edges = 5\<rparr>)
     = Inr [BuildThread_stop, Lib_build]"
proof -
  let ?m = "\<lparr>m_parameters =
             \<lparr>m_num_threads = 2, m_worker_granularity = 1024, m_build_frequency = 10,
              m_report_progress = False, m_num_reports_per_operations = 1,
              m_measure_latency = False\<rparr>,
           m_is_directed = False,
           m_results = Aging2Result_new\<lparr>m_num_vertices_load := 4, m_num_edges_load := 5\<rparr>,
           m_reported_times_array = [0, 0, 0], m_workers = [0, 1],
           m_last_progress_reported = 0, m_last_time_reported = 0, events = [], cout = []\<rparr>"
  let ?g = "\<lparr>vertices_temporary_cardinality = 0, vertices_final_cardinality = 4,
           edges_final = 5, edges_cardinality = 10, edges_block_size = 6,
           edge_batches = [[\<lparr>le_source = 3, le_destination = 4, le_weight = 1\<rparr>]],
           temporary_vertices = []\<rparr>"
  let ?env = "\<lparr>worker_writes = [(0, 17)], worker_last_time_reported = 1,
           timer_microseconds = 100, build_invocations = 0,
           sut_num_vertices = 4, sut_num_edges = 5\<rparr>"
  have h1: "list_all (\<lambda>w. fst w < length (m_reported_times_array ?m)) (worker_writes ?env)"
    by simp
  have h2: "worker_last_time_reported ?env \<le> length (m_reported_times_array ?m)"
    by simp
  obtain res m' where run: "execute ?m ?g ?env = Inr (res, m')"
    and segment: "takeWhile (\<lambda>e. e \<noteq> Timer_stop)
          (dropWhile (\<lambda>e. e \<noteq> BuildThread_stop) (drop (length (events ?m)) (events m')))
        = [BuildThread_stop, Lib_build]"
    using build_service_brackets_the_updates [OF h1 h2, of ?g] by blast
  have "drop (length (events ?m)) (events m') = events m'"
    by simp
  then have seg: "takeWhile (\<lambda>e. e \<noteq> Timer_stop)
          (dropWhile (\<lambda>e. e \<noteq> BuildThread_stop) (events m')) = [BuildThread_stop, Lib_build]"
    using segment by (simp only:)
  have main: "map_sum id
        (\<lambda>r. takeWhile (\<lambda>e. e \<noteq> Timer_stop)
               (dropWhile (\<lambda>e. e \<noteq> BuildThread_stop) (events (snd r))))
       (execute ?m ?g ?env) = Inr [BuildThread_stop, Lib_build]"
    by (subst run) (simp add: seg)
  have a: "list_all (\<lambda>w. fst w < length [0, 0, 0 :: 64 word]) [(0, 17 :: 64 word)]"
    by simp
  have b: "(1::nat) \<le> length [0, 0, 0 :: 64 word]"
    by simp
  show ?thesis
    by (rule conjI [OF a conjI [OF b main]])
qed

subsection \<open>Thread ids\<close>

lemma int_of_uint64_small:
  assumes "unat w < 2 ^ 31"
  shows "int_of_uint64 w = int (unat w)"
proof -
  have "int_of_uint64 w = signed_take_bit 31 (uint w)"
    unfolding int_of_uint64_def
    by (simp add: sint_uint unsigned_ucast_eq signed_take_bit_take_bit)
  also have "\<dots> = uint w"
  proof -
    have lo: "- (2 ^ 31) \<le> uint w"
      by (rule order_trans [of _ 0]) simp_all
    have "int (unat w) < int (2 ^ 31)"
      using assms by (simp only: of_nat_less_iff)
    then have hi: "uint w < 2 ^ 31"
      by simp
    show ?thesis
      using lo hi by (rule signed_take_bit_int_eq_self)
  qed
  finally show ?thesis by simp
qed

lemma unat_plus_2:
  assumes "unat (w :: 64 word) < 2 ^ 31 - 2"
  shows "unat (w + 2) = unat w + 2"
proof -
  have two: "unat (2 :: 64 word) = 2"
    by simp
  have "unat w + 2 < 2 ^ 31"
    using assms by linarith
  also have "(2::nat) ^ 31 < 2 ^ 64"
    by (rule power_strict_increasing) simp_all
  finally have "unat w + unat (2 :: 64 word) < 2 ^ LENGTH(64)"
    by (simp only: two len_num1 len_bit0 mult_2) simp
  then have "unat (w + 2) = unat w + unat (2 :: 64 word)"
    by (simp only: unat_add_lem)
  then show ?thesis
    by (simp only: two)
qed

lemma int_of_uint64_plus_2:
  assumes "unat (w :: 64 word) < 2 ^ 31 - 2"
  shows "int_of_uint64 (w + 2) = int (unat w) + 2"
proof -
  have "unat w + 2 < 2 ^ 31"
    using assms by linarith
  then have "unat (w + 2) < 2 ^ 31"
    by (simp only: unat_plus_2 [OF assms])
  then have "int_of_uint64 (w + 2) = int (unat (w + 2))"
    by (rule int_of_uint64_small)
  then show ?thesis
    by (simp only: unat_plus_2 [OF assms] of_nat_add of_nat_numeral)
qed

text \<open>The calls of a whole run: construction, \<open>execute\<close>, destruction.\<close>

lemma master_run_trace:
  assumes size: "reported_times_size (edges_cardinality glog) (edges_final glog) = Some n"
    and writes: "list_all (\<lambda>w. fst w < n) (worker_writes env)"
    and last: "worker_last_time_reported env \<le> n"
  shows "\<exists>res m es. master_run parameters d glog env = Inr (res, m)
     \<and> (\<forall>e \<in> set es. (\<exists>w. e = Worker_load_edges w) \<or> (\<exists>w. e = Worker_wait w))
     \<and> events m =
          [Lib_is_directed, Lib_on_main_init (int_of_uint64 (m_num_threads parameters + 2))]
          @ map Worker_new [0..<unat (m_num_threads parameters)]
          @ [Lib_on_thread_init (int_of_uint64 (m_num_threads parameters))]
          @ es @
          [BuildThread_new (int_of_uint64 (m_num_threads parameters) + 1)
             (m_build_frequency parameters),
           Timer_start]
          @ map Worker_execute_updates [0..<unat (m_num_threads parameters)]
          @ map Worker_wait [0..<unat (m_num_threads parameters)]
          @ [BuildThread_stop, Lib_build, Timer_stop, Store_completion_time,
             BuildThread_num_invocations, BuildThread_delete]
          @ map Worker_remove_vertices [0..<unat (m_num_threads parameters)]
          @ map Worker_wait [0..<unat (m_num_threads parameters)] @ [Lib_build]
          @ [Lib_num_vertices, Lib_num_edges]
          @ map Worker_delete [0..<unat (m_num_threads parameters)]
          @ [Lib_on_thread_destroy (int_of_uint64 (m_num_threads parameters)),
             Lib_on_main_destroy]"
proof -
  obtain m0 where new: "Aging2Master_new parameters d glog = Inr m0"
    and m0_arr: "length (m_reported_times_array m0) = n"
    and m0_par: "m_parameters m0 = parameters"
    and m0_workers: "m_workers m0 = [0..<unat (m_num_threads parameters)]"
    and m0_events: "events m0 =
          [Lib_is_directed, Lib_on_main_init (int_of_uint64 (m_num_threads parameters + 2))]
          @ map Worker_new [0..<unat (m_num_threads parameters)]
          @ [Lib_on_thread_init (int_of_uint64 (m_num_threads parameters))]"
    using Aging2Master_new_Inr [OF size, of parameters d] by simp
  have h1: "list_all (\<lambda>w. fst w < length (m_reported_times_array m0)) (worker_writes env)"
    using writes by (simp only: m0_arr)
  have h2: "worker_last_time_reported env \<le> length (m_reported_times_array m0)"
    using last by (simp only: m0_arr)
  obtain res m' es where run: "execute m0 glog env = Inr (res, m')"
    and only: "\<forall>e \<in> set es. (\<exists>w. e = Worker_load_edges w) \<or> (\<exists>w. e = Worker_wait w)"
    and m'_par: "m_parameters m' = m_parameters m0"
    and m'_workers: "m_workers m' = m_workers m0"
    and m'_events: "events m' = events m0 @ es @
          [BuildThread_new (int_of_uint64 (m_num_threads (m_parameters m0)) + 1)
             (m_build_frequency (m_parameters m0)),
           Timer_start]
          @ map Worker_execute_updates (m_workers m0)
          @ map Worker_wait (m_workers m0)
          @ [BuildThread_stop, Lib_build, Timer_stop, Store_completion_time,
             BuildThread_num_invocations, BuildThread_delete]
          @ map Worker_remove_vertices (m_workers m0)
          @ map Worker_wait (m_workers m0) @ [Lib_build]
          @ [Lib_num_vertices, Lib_num_edges]"
    using execute_trace [OF h1 h2, of glog] by blast
  have whole: "master_run parameters d glog env = Inr (res, Aging2Master_destroy m')"
    unfolding master_run_def new sum.case run prod.case ..
  have "events (Aging2Master_destroy m') =
          [Lib_is_directed, Lib_on_main_init (int_of_uint64 (m_num_threads parameters + 2))]
          @ map Worker_new [0..<unat (m_num_threads parameters)]
          @ [Lib_on_thread_init (int_of_uint64 (m_num_threads parameters))]
          @ es @
          [BuildThread_new (int_of_uint64 (m_num_threads parameters) + 1)
             (m_build_frequency parameters),
           Timer_start]
          @ map Worker_execute_updates [0..<unat (m_num_threads parameters)]
          @ map Worker_wait [0..<unat (m_num_threads parameters)]
          @ [BuildThread_stop, Lib_build, Timer_stop, Store_completion_time,
             BuildThread_num_invocations, BuildThread_delete]
          @ map Worker_remove_vertices [0..<unat (m_num_threads parameters)]
          @ map Worker_wait [0..<unat (m_num_threads parameters)] @ [Lib_build]
          @ [Lib_num_vertices, Lib_num_edges]
          @ map Worker_delete [0..<unat (m_num_threads parameters)]
          @ [Lib_on_thread_destroy (int_of_uint64 (m_num_threads parameters)),
             Lib_on_main_destroy]"
    unfolding Aging2Master_destroy_def
    by (simp add: m'_events m'_par m'_workers m0_events m0_par m0_workers)
  with whole only show ?thesis
    by blast
qed

text \<open>
  C4. In a whole run with \<open>T\<close> worker threads (\<open>T\<close> small enough for \<open>T + 2\<close> to be an
  \<open>int\<close>): \<open>T\<close> workers are created; the library's \<open>on_main_init\<close> is called exactly once,
  with \<open>T + 2\<close>; \<open>on_thread_init\<close> is called by the master exactly once, with \<open>T\<close>, and
  \<open>on_thread_destroy\<close> exactly once, with \<open>T\<close>, at teardown just before
  \<open>on_main_destroy\<close>; and the build service is constructed exactly once, with thread id
  \<open>T + 1\<close> and the configured build frequency, between the two.
\<close>

theorem master_thread_ids:
  assumes size: "reported_times_size (edges_cardinality glog) (edges_final glog) = Some n"
    and writes: "list_all (\<lambda>w. fst w < n) (worker_writes env)"
    and last: "worker_last_time_reported env \<le> n"
    and threads: "unat (m_num_threads parameters) < 2 ^ 31 - 2"
  shows "\<exists>res m. master_run parameters d glog env = Inr (res, m)
     \<and> filter is_Worker_new (events m) = map Worker_new [0..<unat (m_num_threads parameters)]
     \<and> filter is_Lib_on_main_init (events m) =
          [Lib_on_main_init (int (unat (m_num_threads parameters)) + 2)]
     \<and> filter is_Lib_on_thread_init (events m) =
          [Lib_on_thread_init (int (unat (m_num_threads parameters)))]
     \<and> filter is_Lib_on_thread_destroy (events m) =
          [Lib_on_thread_destroy (int (unat (m_num_threads parameters)))]
     \<and> filter is_BuildThread_new (events m) =
          [BuildThread_new (int (unat (m_num_threads parameters)) + 1)
             (m_build_frequency parameters)]
     \<and> subseq [Lib_on_main_init (int (unat (m_num_threads parameters)) + 2),
                Lib_on_thread_init (int (unat (m_num_threads parameters))),
                BuildThread_new (int (unat (m_num_threads parameters)) + 1)
                  (m_build_frequency parameters),
                Lib_on_thread_destroy (int (unat (m_num_threads parameters))),
                Lib_on_main_destroy] (events m)"
proof -
  let ?T = "unat (m_num_threads parameters)"
  have small: "?T < 2 ^ 31"
    using threads by linarith
  have id_T: "int_of_uint64 (m_num_threads parameters) = int ?T"
    using small by (rule int_of_uint64_small)
  have id_T2: "int_of_uint64 (m_num_threads parameters + 2) = int ?T + 2"
    using threads by (rule int_of_uint64_plus_2)
  let ?init = "[Lib_is_directed, Lib_on_main_init (int ?T + 2)]
          @ map Worker_new [0..<?T] @ [Lib_on_thread_init (int ?T)]"
  let ?run = "[BuildThread_new (int ?T + 1) (m_build_frequency parameters), Timer_start]
          @ map Worker_execute_updates [0..<?T]
          @ map Worker_wait [0..<?T]
          @ [BuildThread_stop, Lib_build, Timer_stop, Store_completion_time,
             BuildThread_num_invocations, BuildThread_delete]
          @ map Worker_remove_vertices [0..<?T]
          @ map Worker_wait [0..<?T] @ [Lib_build]
          @ [Lib_num_vertices, Lib_num_edges]"
  let ?destroy = "map Worker_delete [0..<?T] @ [Lib_on_thread_destroy (int ?T), Lib_on_main_destroy]"
  obtain res m es where run: "master_run parameters d glog env = Inr (res, m)"
    and only: "\<forall>e \<in> set es. (\<exists>w. e = Worker_load_edges w) \<or> (\<exists>w. e = Worker_wait w)"
    and raw: "events m =
          [Lib_is_directed, Lib_on_main_init (int ?T + 2)]
          @ map Worker_new [0..<?T]
          @ [Lib_on_thread_init (int ?T)]
          @ es @
          [BuildThread_new (int ?T + 1) (m_build_frequency parameters), Timer_start]
          @ map Worker_execute_updates [0..<?T]
          @ map Worker_wait [0..<?T]
          @ [BuildThread_stop, Lib_build, Timer_stop, Store_completion_time,
             BuildThread_num_invocations, BuildThread_delete]
          @ map Worker_remove_vertices [0..<?T]
          @ map Worker_wait [0..<?T] @ [Lib_build]
          @ [Lib_num_vertices, Lib_num_edges]
          @ map Worker_delete [0..<?T]
          @ [Lib_on_thread_destroy (int ?T), Lib_on_main_destroy]"
    using master_run_trace [OF size writes last, of parameters d]
    unfolding id_T id_T2 by blast
  have ev: "events m = ?init @ es @ ?run @ ?destroy"
    unfolding raw by simp
  have load_call: "\<not> is_Worker_new e \<and> \<not> is_Lib_on_main_init e \<and> \<not> is_Lib_on_thread_init e
      \<and> \<not> is_Lib_on_thread_destroy e \<and> \<not> is_BuildThread_new e" if "e \<in> set es" for e
  proof -
    from only that consider w where "e = Worker_load_edges w" | w where "e = Worker_wait w"
      by blast
    then show ?thesis
      by cases simp_all
  qed
  have es_none: "filter is_Worker_new es = []" "filter is_Lib_on_main_init es = []"
    "filter is_Lib_on_thread_init es = []" "filter is_Lib_on_thread_destroy es = []"
    "filter is_BuildThread_new es = []"
    using load_call by (simp_all add: filter_empty_conv)
  have c0: "filter is_Worker_new (events m) = map Worker_new [0..<?T]"
    unfolding ev by (simp add: es_none filter_map comp_def)
  have c1: "filter is_Lib_on_main_init (events m) = [Lib_on_main_init (int ?T + 2)]"
    unfolding ev by (simp add: es_none filter_map comp_def)
  have c2: "filter is_Lib_on_thread_init (events m) = [Lib_on_thread_init (int ?T)]"
    unfolding ev by (simp add: es_none filter_map comp_def)
  have c3: "filter is_Lib_on_thread_destroy (events m) = [Lib_on_thread_destroy (int ?T)]"
    unfolding ev by (simp add: es_none filter_map comp_def)
  have c4: "filter is_BuildThread_new (events m) =
      [BuildThread_new (int ?T + 1) (m_build_frequency parameters)]"
    unfolding ev by (simp add: es_none filter_map comp_def)
  have c5: "subseq [Lib_on_main_init (int ?T + 2), Lib_on_thread_init (int ?T),
                BuildThread_new (int ?T + 1) (m_build_frequency parameters),
                Lib_on_thread_destroy (int ?T), Lib_on_main_destroy] (events m)"
  proof -
    have a: "subseq [Lib_on_main_init (int ?T + 2)] [Lib_is_directed, Lib_on_main_init (int ?T + 2)]"
      by simp
    have b: "subseq [Lib_on_thread_init (int ?T)] (map Worker_new [0..<?T] @ [Lib_on_thread_init (int ?T)])"
      by (rule list_emb_append2) simp
    have c: "subseq [] es"
      by simp
    have e: "subseq [BuildThread_new (int ?T + 1) (m_build_frequency parameters)] ?run"
      by simp
    have f: "subseq [Lib_on_thread_destroy (int ?T), Lib_on_main_destroy] ?destroy"
      by (rule list_emb_append2) simp
    have "subseq ([Lib_on_main_init (int ?T + 2)] @ [Lib_on_thread_init (int ?T)] @ []
          @ [BuildThread_new (int ?T + 1) (m_build_frequency parameters)]
          @ [Lib_on_thread_destroy (int ?T), Lib_on_main_destroy])
        ([Lib_is_directed, Lib_on_main_init (int ?T + 2)]
          @ (map Worker_new [0..<?T] @ [Lib_on_thread_init (int ?T)])
          @ es @ ?run @ ?destroy)"
      by (intro list_emb_append_mono a b c e f)
    then show ?thesis
      unfolding ev by simp
  qed
  show ?thesis
    by (rule exI [of _ res], rule exI [of _ m], intro conjI) (rule run c0 c1 c2 c3 c4 c5)+
qed

theorem master_thread_ids_witness:
  "map_sum id (\<lambda>r. filter is_Lib_on_main_init (events (snd r)))
     (master_run
        \<lparr>m_num_threads = 2, m_worker_granularity = 1024, m_build_frequency = 10,
         m_report_progress = False, m_num_reports_per_operations = 1,
         m_measure_latency = False\<rparr>
        False
        \<lparr>vertices_temporary_cardinality = 0, vertices_final_cardinality = 4,
         edges_final = 5, edges_cardinality = 10, edges_block_size = 6,
         edge_batches = [[\<lparr>le_source = 3, le_destination = 4, le_weight = 1\<rparr>]],
         temporary_vertices = []\<rparr>
        \<lparr>worker_writes = [(1, 17)], worker_last_time_reported = 2,
         timer_microseconds = 100, build_invocations = 0,
         sut_num_vertices = 4, sut_num_edges = 5\<rparr>) = Inr [Lib_on_main_init 4]
   \<and> map_sum id (\<lambda>r. filter is_BuildThread_new (events (snd r)))
     (master_run
        \<lparr>m_num_threads = 2, m_worker_granularity = 1024, m_build_frequency = 10,
         m_report_progress = False, m_num_reports_per_operations = 1,
         m_measure_latency = False\<rparr>
        False
        \<lparr>vertices_temporary_cardinality = 0, vertices_final_cardinality = 4,
         edges_final = 5, edges_cardinality = 10, edges_block_size = 6,
         edge_batches = [[\<lparr>le_source = 3, le_destination = 4, le_weight = 1\<rparr>]],
         temporary_vertices = []\<rparr>
        \<lparr>worker_writes = [(1, 17)], worker_last_time_reported = 2,
         timer_microseconds = 100, build_invocations = 0,
         sut_num_vertices = 4, sut_num_edges = 5\<rparr>) = Inr [BuildThread_new 3 10]"
proof -
  let ?p = "\<lparr>m_num_threads = 2, m_worker_granularity = 1024, m_build_frequency = 10,
         m_report_progress = False, m_num_reports_per_operations = 1,
         m_measure_latency = False\<rparr>"
  let ?g = "\<lparr>vertices_temporary_cardinality = 0, vertices_final_cardinality = 4,
         edges_final = 5, edges_cardinality = 10, edges_block_size = 6,
         edge_batches = [[\<lparr>le_source = 3, le_destination = 4, le_weight = 1\<rparr>]],
         temporary_vertices = []\<rparr>"
  let ?env = "\<lparr>worker_writes = [(1, 17)], worker_last_time_reported = 2,
         timer_microseconds = 100, build_invocations = 0,
         sut_num_vertices = 4, sut_num_edges = 5\<rparr>"
  have h1: "reported_times_size (edges_cardinality ?g) (edges_final ?g) = Some 3"
    by (simp add: reported_times_size_10_5)
  have h2: "list_all (\<lambda>w. fst w < 3) (worker_writes ?env)"
    by simp
  have h3: "worker_last_time_reported ?env \<le> 3"
    by simp
  have h4: "unat (m_num_threads ?p) < 2 ^ 31 - 2"
    by simp
  obtain res m where run: "master_run ?p False ?g ?env = Inr (res, m)"
    and init: "filter is_Lib_on_main_init (events m) =
          [Lib_on_main_init (int (unat (m_num_threads ?p)) + 2)]"
    and build: "filter is_BuildThread_new (events m) =
          [BuildThread_new (int (unat (m_num_threads ?p)) + 1) (m_build_frequency ?p)]"
    using master_thread_ids [OF h1 h2 h3 h4, of False] by blast
  have a: "map_sum id (\<lambda>r. filter is_Lib_on_main_init (events (snd r)))
      (master_run ?p False ?g ?env) = Inr [Lib_on_main_init 4]"
    by (subst run) (simp add: init)
  have b: "map_sum id (\<lambda>r. filter is_BuildThread_new (events (snd r)))
      (master_run ?p False ?g ?env) = Inr [BuildThread_new 3 10]"
    by (subst run) (simp add: build)
  show ?thesis
    by (rule conjI [OF a b])
qed

end
